theory Spec2Isabelle
  imports Complex_Main "HOL-Library.AList"
begin

section \<open>Data model (bujo/types.ts)\<close>

text \<open>
  Page indices and counts are natural numbers, coordinates are exact reals (the source
  uses IEEE doubles; rounding of the doubles is not modelled).  A JavaScript \<open>Map\<close> is
  an association list in insertion order: \<open>Map.set\<close> is \<open>AList.update\<close> (an existing
  key keeps its place and takes the new value), \<open>Map.get\<close> is \<open>map_of\<close>.
\<close>

datatype PageType = Key | Future | Monthly | MonthlyTasks | Weekly | Daily | Collection | Index

text \<open>A JavaScript \<open>Date\<close>, read through its accessors; \<open>getMonth\<close> is 0-based.\<close>

record JSDate =
  getFullYear :: int
  getMonth :: nat
  getDate :: nat

record PageRef =
  label :: string
  pageIndex :: nat
  type :: PageType
  date :: "JSDate option"
  monthIndex :: "nat option"
  weekIndex :: "int option"
  yearMonth :: "string option"

datatype TargetType = TIndex | TFuture | TMonthly | TMonthlyTasks | TWeekly | Prev | Next

record NavItem =
  itemLabel :: string
  targetType :: TargetType
  targetKey :: "string option"

record PageRegistry =
  indexPage :: nat
  futureLogPages :: "nat list"
  monthlyCalPages :: "(string \<times> nat) list"
  monthlyTasksPages :: "(string \<times> nat) list"
  weeklyPages :: "(int \<times> nat) list"
  dailyPages :: "(string \<times> nat) list"
  collectionPages :: "nat list"
  keyPage :: "nat option"
  pagesByType :: "(PageType \<times> nat list) list"

section \<open>Strings: number formatting and parsing\<close>

definition digitChar :: "nat \<Rightarrow> char" where
  "digitChar d = char_of (48 + d)"

function natToString :: "nat \<Rightarrow> string" where
  "natToString n =
     (if n < 10 then [digitChar n] else natToString (n div 10) @ [digitChar (n mod 10)])"
  by pat_completeness auto
termination
  by (relation "measure id") auto

declare natToString.simps [simp del]

text \<open>\<open>String(n)\<close> and \<open>n.toString()\<close> for an integral number.\<close>

definition numberToString :: "int \<Rightarrow> string" where
  "numberToString i =
     (if i < 0 then CHR ''-'' # natToString (nat (- i)) else natToString (nat i))"

definition padStart :: "nat \<Rightarrow> char \<Rightarrow> string \<Rightarrow> string" where
  "padStart targetLength c s = replicate (targetLength - length s) c @ s"

definition isDigit :: "char \<Rightarrow> bool" where
  "isDigit c = ((48::nat) \<le> of_char c \<and> (of_char c :: nat) \<le> 57)"

definition digitVal :: "char \<Rightarrow> nat" where
  "digitVal c = (of_char c :: nat) - 48"

text \<open>
  \<open>parseInt(s)\<close> in radix 10: leading blanks, an optional sign, then the longest prefix
  of decimal digits; \<open>None\<close> is \<open>NaN\<close>.  The \<open>0x\<close> prefix is not modelled: every key
  parsed here was produced by \<open>numberToString\<close> or \<open>padStart\<close>.
\<close>

definition parseDigits :: "string \<Rightarrow> nat option" where
  "parseDigits s =
     (let ds = takeWhile isDigit s
      in if ds = [] then None else Some (foldl (\<lambda>acc c. 10 * acc + digitVal c) 0 ds))"

definition parseInt :: "string \<Rightarrow> int option" where
  "parseInt s =
     (case dropWhile (\<lambda>c. c = CHR '' '') s of
        [] \<Rightarrow> None
      | c # cs \<Rightarrow>
          if c = CHR ''-'' then map_option (\<lambda>n. - int n) (parseDigits cs)
          else if c = CHR ''+'' then map_option int (parseDigits cs)
          else map_option int (parseDigits (c # cs)))"

text \<open>\<open>s.split(sep)\<close> for a one-character separator.\<close>

fun splitOn :: "char \<Rightarrow> string \<Rightarrow> string \<Rightarrow> string list" where
  "splitOn sep cur [] = [cur]"
| "splitOn sep cur (c # cs) =
     (if c = sep then cur # splitOn sep [] cs else splitOn sep (cur @ [c]) cs)"

definition split :: "string \<Rightarrow> char \<Rightarrow> string list" where
  "split s sep = splitOn sep [] s"

section \<open>Page registry (bujo/navigation.ts)\<close>

definition formatDateKey :: "JSDate \<Rightarrow> string" where
  "formatDateKey d =
     (let y = getFullYear d;
          m = padStart 2 CHR ''0'' (numberToString (int (getMonth d + 1)));
          dd = padStart 2 CHR ''0'' (numberToString (int (getDate d)))
      in numberToString y @ ''-'' @ m @ ''-'' @ dd)"

definition formatYearMonth :: "JSDate \<Rightarrow> string" where
  "formatYearMonth d =
     (let y = getFullYear d;
          m = padStart 2 CHR ''0'' (numberToString (int (getMonth d + 1)))
      in numberToString y @ ''-'' @ m)"

definition allPageTypes :: "PageType list" where
  "allPageTypes = [Key, Future, Monthly, MonthlyTasks, Weekly, Daily, Collection, Index]"

definition emptyRegistry :: "nat \<Rightarrow> PageRegistry" where
  "emptyRegistry indexPageIndex =
     \<lparr> indexPage = indexPageIndex, futureLogPages = [], monthlyCalPages = [],
       monthlyTasksPages = [], weeklyPages = [], dailyPages = [], collectionPages = [],
       keyPage = None, pagesByType = map (\<lambda>t. (t, [])) allPageTypes \<rparr>"

text \<open>The first statement of the loop body: \<open>typeList.push(ref.pageIndex)\<close>.\<close>

definition pushByType :: "PageRef \<Rightarrow> PageRegistry \<Rightarrow> PageRegistry" where
  "pushByType ref registry =
     (case map_of (pagesByType registry) (type ref) of
        None \<Rightarrow> registry
      | Some typeList \<Rightarrow>
          registry\<lparr> pagesByType :=
            AList.update (type ref) (typeList @ [pageIndex ref]) (pagesByType registry) \<rparr>)"

text \<open>A string is truthy when it is defined and not empty.\<close>

definition truthy :: "string option \<Rightarrow> bool" where
  "truthy s = (case s of None \<Rightarrow> False | Some t \<Rightarrow> t \<noteq> [])"

text \<open>The \<open>switch (ref.type)\<close> of the loop body.\<close>

definition registerByKey :: "PageRef \<Rightarrow> PageRegistry \<Rightarrow> PageRegistry" where
  "registerByKey ref registry =
     (case type ref of
        Key \<Rightarrow> registry\<lparr> keyPage := Some (pageIndex ref) \<rparr>
      | Future \<Rightarrow> registry\<lparr> futureLogPages := futureLogPages registry @ [pageIndex ref] \<rparr>
      | Monthly \<Rightarrow>
          (if truthy (yearMonth ref)
           then registry\<lparr> monthlyCalPages :=
                  AList.update (the (yearMonth ref)) (pageIndex ref) (monthlyCalPages registry) \<rparr>
           else registry)
      | MonthlyTasks \<Rightarrow>
          (if truthy (yearMonth ref)
           then registry\<lparr> monthlyTasksPages :=
                  AList.update (the (yearMonth ref)) (pageIndex ref) (monthlyTasksPages registry) \<rparr>
           else registry)
      | Weekly \<Rightarrow>
          (case weekIndex ref of
             Some w \<Rightarrow> registry\<lparr> weeklyPages := AList.update w (pageIndex ref) (weeklyPages registry) \<rparr>
           | None \<Rightarrow> registry)
      | Daily \<Rightarrow>
          (case date ref of
             Some d \<Rightarrow> registry\<lparr> dailyPages :=
                         AList.update (formatDateKey d) (pageIndex ref) (dailyPages registry) \<rparr>
           | None \<Rightarrow> registry)
      | Collection \<Rightarrow> registry\<lparr> collectionPages := collectionPages registry @ [pageIndex ref] \<rparr>
      | Index \<Rightarrow> registry)"

definition registerRef :: "PageRegistry \<Rightarrow> PageRef \<Rightarrow> PageRegistry" where
  "registerRef registry ref = registerByKey ref (pushByType ref registry)"

definition buildPageRegistry :: "PageRef list \<Rightarrow> nat \<Rightarrow> PageRegistry" where
  "buildPageRegistry pageRefs indexPageIndex =
     foldl registerRef (emptyRegistry indexPageIndex) pageRefs"

section \<open>Navigation resolver (bujo/navigation.ts)\<close>

text \<open>\<open>Array.prototype.indexOf\<close>: the position of the first occurrence, or \<open>-1\<close>.\<close>

fun indexOfFrom :: "int \<Rightarrow> nat list \<Rightarrow> nat \<Rightarrow> int" where
  "indexOfFrom i [] v = - 1"
| "indexOfFrom i (a # as) v = (if a = v then i else indexOfFrom (i + 1) as v)"

definition indexOf :: "nat list \<Rightarrow> nat \<Rightarrow> int" where
  "indexOf xs v = indexOfFrom 0 xs v"

definition resolveNavTarget :: "NavItem \<Rightarrow> PageRef \<Rightarrow> PageRegistry \<Rightarrow> nat option" where
  "resolveNavTarget item ref registry =
     (case targetType item of
        TIndex \<Rightarrow> Some (indexPage registry)
      | TFuture \<Rightarrow> (case futureLogPages registry of [] \<Rightarrow> None | p # _ \<Rightarrow> Some p)
      | TMonthly \<Rightarrow>
          (if truthy (targetKey item)
           then map_of (monthlyCalPages registry) (the (targetKey item)) else None)
      | TMonthlyTasks \<Rightarrow>
          (if truthy (targetKey item)
           then map_of (monthlyTasksPages registry) (the (targetKey item)) else None)
      | TWeekly \<Rightarrow>
          (if truthy (targetKey item)
           then (case parseInt (the (targetKey item)) of
                   None \<Rightarrow> None
                 | Some w \<Rightarrow> map_of (weeklyPages registry) w)
           else None)
      | _ \<Rightarrow>
          (case map_of (pagesByType registry) (type ref) of
             None \<Rightarrow> None
           | Some typePages \<Rightarrow>
               (let idx = indexOf typePages (pageIndex ref)
                in if idx = - 1 then None
                   else if targetType item = Prev \<and> idx > 0
                     then Some (typePages ! nat (idx - 1))
                   else if targetType item = Next \<and> idx < int (length typePages) - 1
                     then Some (typePages ! nat (idx + 1))
                   else None)))"

section \<open>Documents and link annotations (pdf/hyperlinks.ts)\<close>

text \<open>
  A document is the list of its page objects in document order.  A page object has an
  identity (a number given at creation), so that an annotation can refer to a page
  object and keep referring to it when pages are inserted before it, as the object
  references of pdf-lib do.  Of a page's content the model keeps the link annotations
  and the text runs drawn on it.

  A page that \<open>addPage\<close> or \<open>insertPage\<close> has just made has no \<open>/Annots\<close> entry in its
  dictionary.  pdf-lib normalizes a page at the first drawing call on it, and
  normalizing gives the page its \<open>/Annots\<close> array, empty at first; \<open>normalized\<close> records
  which pages have it.  The typed lookup \<open>node.lookup(PDFName.of('Annots'), PDFArray)\<close>
  throws on a page without the entry.
\<close>

datatype error = PageIndexOutOfRange | UnexpectedObjectType

record LinkRect =
  rectX :: real
  rectY :: real
  rectWidth :: real
  rectHeight :: real

text \<open>
  The annotation dictionary: \<open>Rect\<close> is \<open>[x1, y1, x2, y2]\<close>, \<open>Border\<close> is
  \<open>[0, 0, 0]\<close>, \<open>Dest\<close> is the target page object, the destination type and the three
  parameters left, top and zoom, where \<open>None\<close> is \<open>null\<close>.
\<close>

record LinkAnnotation =
  annotType :: string
  annotSubtype :: string
  annotRect :: "real list"
  annotBorder :: "nat list"
  annotDest :: "nat \<times> string \<times> real option \<times> real option \<times> real option"

record DrawnText =
  dtText :: string
  dtX :: real
  dtY :: real
  dtSize :: real

record PDFDocument =
  pages :: "nat list"
  objectCount :: nat
  annots :: "nat \<Rightarrow> LinkAnnotation list"
  texts :: "nat \<Rightarrow> DrawnText list"
  normalized :: "nat \<Rightarrow> bool"

text \<open>\<open>font.widthOfTextAtSize(text, size)\<close>; the font metrics are a parameter.\<close>

type_synonym PDFFont = "string \<Rightarrow> real \<Rightarrow> real"

definition createDocument :: PDFDocument where
  "createDocument = \<lparr> pages = [], objectCount = 0, annots = (\<lambda>_. []), texts = (\<lambda>_. []),
                      normalized = (\<lambda>_. False) \<rparr>"

definition getPageCount :: "PDFDocument \<Rightarrow> nat" where
  "getPageCount doc = length (pages doc)"

text \<open>\<open>pdfDoc.getPage(index)\<close> throws when the index is out of range.\<close>

definition getPage :: "PDFDocument \<Rightarrow> nat \<Rightarrow> error + nat" where
  "getPage doc i = (if i < length (pages doc) then Inr (pages doc ! i) else Inl PageIndexOutOfRange)"

definition addPage :: "PDFDocument \<Rightarrow> nat \<times> PDFDocument" where
  "addPage doc =
     (objectCount doc,
      doc\<lparr> pages := pages doc @ [objectCount doc], objectCount := Suc (objectCount doc) \<rparr>)"

text \<open>\<open>pdfDoc.insertPage(index)\<close> throws when the index is beyond the page count.\<close>

definition insertPage :: "PDFDocument \<Rightarrow> nat \<Rightarrow> error + (nat \<times> PDFDocument)" where
  "insertPage doc i =
     (if i \<le> length (pages doc)
      then Inr (objectCount doc,
                doc\<lparr> pages := take i (pages doc) @ [objectCount doc] @ drop i (pages doc),
                     objectCount := Suc (objectCount doc) \<rparr>)
      else Inl PageIndexOutOfRange)"

text \<open>\<open>page.drawText(text, {x, y, size})\<close>: a drawing call, so the page is normalized.\<close>

definition drawText :: "nat \<Rightarrow> string \<Rightarrow> real \<Rightarrow> real \<Rightarrow> real \<Rightarrow> PDFDocument \<Rightarrow> PDFDocument" where
  "drawText page s x y sz doc =
     doc\<lparr> texts := (texts doc)(page := texts doc page @
                        [\<lparr> dtText = s, dtX = x, dtY = y, dtSize = sz \<rparr>]),
          normalized := (normalized doc)(page := True) \<rparr>"

text \<open>
  \<open>createInternalLink\<close> throws when the target index is out of range (\<open>getPage\<close>), and
  when the source page has no \<open>/Annots\<close> entry (the typed lookup; the \<open>else\<close> branch
  after it is never taken).  Otherwise it appends the annotation to the array.
\<close>

definition createInternalLink ::
    "PDFDocument \<Rightarrow> nat \<Rightarrow> LinkRect \<Rightarrow> nat \<Rightarrow> error + PDFDocument" where
  "createInternalLink pdfDoc sourcePage rect targetPageIndex =
     (case getPage pdfDoc targetPageIndex of
        Inl e \<Rightarrow> Inl e
      | Inr targetPage \<Rightarrow>
          (let linkAnnotation =
                 \<lparr> annotType = ''Annot'', annotSubtype = ''Link'',
                   annotRect = [rectX rect, rectY rect,
                                rectX rect + rectWidth rect, rectY rect + rectHeight rect],
                   annotBorder = [0, 0, 0],
                   annotDest = (targetPage, ''XYZ'', None, None, None) \<rparr>
           in if normalized pdfDoc sourcePage
              then Inr (pdfDoc\<lparr> annots := (annots pdfDoc)(sourcePage :=
                                   annots pdfDoc sourcePage @ [linkAnnotation]) \<rparr>)
              else Inl UnexpectedObjectType))"

section \<open>Layout context (bujo/types.ts, types/planner.ts)\<close>

record Padding =
  paddingTop :: real
  paddingBottom :: real
  paddingLeft :: real
  paddingRight :: real

record Dimensions =
  WIDTH :: real
  HEIGHT :: real
  MARGIN :: real
  TOOLBAR_HEIGHT :: real
  padding :: Padding

record DensityConfig =
  lineHeight :: real
  fontSize :: real
  headerSize :: real
  spacing :: real

datatype DensityLevel = Compact | Normal | Comfortable

definition DENSITY_CONFIGS :: "DensityLevel \<Rightarrow> DensityConfig" where
  "DENSITY_CONFIGS lvl =
     (case lvl of
        Compact \<Rightarrow> \<lparr> lineHeight = 14, fontSize = 8, headerSize = 12, spacing = 0.8 \<rparr>
      | Normal \<Rightarrow> \<lparr> lineHeight = 18, fontSize = 9, headerSize = 14, spacing = 1.0 \<rparr>
      | Comfortable \<Rightarrow> \<lparr> lineHeight = 24, fontSize = 10, headerSize = 16, spacing = 1.2 \<rparr>)"

record NavContext =
  hasFutureLog :: bool
  hasMonthlyLog :: bool
  hasWeeklyReview :: bool
  hasDailyLog :: bool

section \<open>Navigation labels and their drawing (bujo/page-utils.ts)\<close>

definition getNavLabels :: "PageType \<Rightarrow> NavContext \<Rightarrow> string list" where
  "getNavLabels pageType nav =
     (case pageType of
        Daily \<Rightarrow>
          [''Index''] @ (if hasFutureLog nav then [''Future Log''] else [])
            @ (if hasMonthlyLog nav then [''Monthly'', ''Tasks''] else [])
            @ (if hasWeeklyReview nav then [''Weekly''] else [])
      | Weekly \<Rightarrow>
          [''<'', ''Index''] @ (if hasFutureLog nav then [''Future Log''] else [])
            @ (if hasMonthlyLog nav then [''Monthly'', ''Tasks''] else [])
            @ [''>'']
      | Monthly \<Rightarrow>
          [''<'', ''Index''] @ (if hasFutureLog nav then [''Future Log''] else [])
            @ [''Tasks'', ''>'']
      | MonthlyTasks \<Rightarrow>
          [''<'', ''Index''] @ (if hasFutureLog nav then [''Future Log''] else [])
            @ [''Calendar'', ''>'']
      | Future \<Rightarrow> [''Index'']
      | Key \<Rightarrow> [''Index''] @ (if hasFutureLog nav then [''Future Log''] else [])
      | Collection \<Rightarrow> [''<'', ''Index'', ''>'']
      | Index \<Rightarrow> (if hasFutureLog nav then [''Future Log''] else []))"

definition navFontSize :: real where
  "navFontSize = 7"

definition navSeparator :: string where
  "navSeparator = ''  |  ''"

text \<open>The loop of \<open>drawTopNavigation\<close>; \<open>rest \<noteq> []\<close> is \<open>i < navItems.length - 1\<close>.\<close>

fun drawNavLoop ::
    "PDFFont \<Rightarrow> nat \<Rightarrow> real \<Rightarrow> real \<Rightarrow> string list \<Rightarrow> PDFDocument \<Rightarrow> PDFDocument" where
  "drawNavLoop font page navY navX [] doc = doc"
| "drawNavLoop font page navY navX (item # rest) doc =
     (let doc1 = drawText page item navX navY navFontSize doc;
          navX1 = navX + font item navFontSize
      in if rest \<noteq> []
         then drawNavLoop font page navY (navX1 + font navSeparator navFontSize) rest
                (drawText page navSeparator navX1 navY navFontSize doc1)
         else drawNavLoop font page navY navX1 rest doc1)"

definition drawTopNavigation ::
    "nat \<Rightarrow> PDFFont \<Rightarrow> Dimensions \<Rightarrow> string list \<Rightarrow> PDFDocument \<Rightarrow> PDFDocument \<times> real" where
  "drawTopNavigation page font dims navItems doc =
     (let navY = HEIGHT dims - paddingTop (padding dims) - navFontSize - 2
      in (drawNavLoop font page navY (paddingLeft (padding dims)) navItems doc,
          navY - navFontSize - 6))"

text \<open>
  \<open>drawPageTitle\<close>: the title text is not recorded, the returned position is.  Its
  callers have drawn a navigation row, never empty for their page types, on the page
  before.
\<close>

definition drawPageTitle :: "real \<Rightarrow> real \<Rightarrow> real" where
  "drawPageTitle startY titleFontSize = startY - titleFontSize - 8"

section \<open>Navigation items and their links (bujo/navigation.ts)\<close>

definition getNavItemsForPage :: "PageRef \<Rightarrow> PageRegistry \<Rightarrow> NavItem list" where
  "getNavItemsForPage ref registry =
     (let ym = (if truthy (yearMonth ref) then yearMonth ref
                else (case date ref of Some d \<Rightarrow> Some (formatYearMonth d) | None \<Rightarrow> None));
          wk = map_option numberToString (weekIndex ref);
          hasFutureLog = (length (futureLogPages registry) > 0);
          hasMonthlyLog = (length (monthlyCalPages registry) > 0);
          hasWeeklyReview = (length (weeklyPages registry) > 0);
          idx = \<lparr> itemLabel = ''Index'', targetType = TIndex, targetKey = None \<rparr>;
          fut = (if hasFutureLog
                 then [\<lparr> itemLabel = ''Future Log'', targetType = TFuture, targetKey = None \<rparr>]
                 else []);
          monTasks = (if hasMonthlyLog
                 then [\<lparr> itemLabel = ''Monthly'', targetType = TMonthly, targetKey = ym \<rparr>,
                       \<lparr> itemLabel = ''Tasks'', targetType = TMonthlyTasks, targetKey = ym \<rparr>]
                 else []);
          prev = \<lparr> itemLabel = ''<'', targetType = Prev, targetKey = None \<rparr>;
          next = \<lparr> itemLabel = ''>'', targetType = Next, targetKey = None \<rparr>
      in case type ref of
           Daily \<Rightarrow>
             [idx] @ fut @ monTasks
               @ (if hasWeeklyReview
                  then [\<lparr> itemLabel = ''Weekly'', targetType = TWeekly, targetKey = wk \<rparr>]
                  else [])
         | Weekly \<Rightarrow> [prev, idx] @ fut @ monTasks @ [next]
         | Monthly \<Rightarrow>
             [prev, idx] @ fut
               @ [\<lparr> itemLabel = ''Tasks'', targetType = TMonthlyTasks, targetKey = ym \<rparr>, next]
         | MonthlyTasks \<Rightarrow>
             [prev, idx] @ fut
               @ [\<lparr> itemLabel = ''Calendar'', targetType = TMonthly, targetKey = ym \<rparr>, next]
         | Future \<Rightarrow> [idx]
         | Key \<Rightarrow> [idx] @ fut
         | Collection \<Rightarrow> [prev, idx, next]
         | Index \<Rightarrow> fut)"



section \<open>Calendar arithmetic\<close>

text \<open>\<open>Math.round\<close> rounds half up.\<close>

definition roundJS :: "real \<Rightarrow> int" where
  "roundJS v = \<lfloor>v + 1 / 2\<rfloor>"

definition isLeapYear :: "int \<Rightarrow> bool" where
  "isLeapYear y = (y mod 4 = 0 \<and> (y mod 100 \<noteq> 0 \<or> y mod 400 = 0))"

definition daysInMonthOf :: "int \<Rightarrow> nat \<Rightarrow> int" where
  "daysInMonthOf y m =
     (if m = 1 then (if isLeapYear y then 29 else 28)
      else if m = 3 \<or> m = 5 \<or> m = 8 \<or> m = 10 then 30 else 31)"

text \<open>\<open>getDaysInMonth\<close> of date-fns.\<close>

definition getDaysInMonth :: "JSDate \<Rightarrow> int" where
  "getDaysInMonth d = daysInMonthOf (getFullYear d) (getMonth d)"

text \<open>
  \<open>new Date(year, month + 1, 0).getDate()\<close>: the last day of the month.  The \<open>Date\<close>
  constructor reads a year from 0 to 99 as 1900 plus that year, and carries a month
  outside 0 to 11 into the year.
\<close>

definition lastDayOfMonth :: "int \<Rightarrow> int \<Rightarrow> int" where
  "lastDayOfMonth year month =
     (let y = (if 0 \<le> year \<and> year \<le> 99 then 1900 + year else year)
      in daysInMonthOf (y + month div 12) (nat (month mod 12)))"

text \<open>\<open>format(date, 'MMMM')\<close> of date-fns, in its default locale.\<close>

definition monthName :: "JSDate \<Rightarrow> string" where
  "monthName d =
     [''January'', ''February'', ''March'', ''April'', ''May'', ''June'', ''July'',
      ''August'', ''September'', ''October'', ''November'', ''December''] ! (getMonth d mod 12)"

section \<open>Monthly log generator (bujo/bujo-monthly.ts)\<close>

text \<open>
  The generator context without the document, which is passed along and returned.
  Of the drawing calls the model records the navigation row and the day numbers of
  the calendar rows; titles, weekday letters, rules and backgrounds are left out.
  The navigation row of a calendar or tasks page is never empty, so every page of the
  generator is normalized by a recorded call.
\<close>

record BujoGeneratorContext =
  ctxFont :: PDFFont
  ctxDims :: Dimensions
  ctxDensity :: DensityConfig
  ctxNav :: NavContext

definition genMinLineHeight :: "BujoGeneratorContext \<Rightarrow> real" where
  "genMinLineHeight ctx = real_of_int (roundJS (lineHeight (ctxDensity ctx) * (7 / 10)))"

definition genAvailableHeight :: "BujoGeneratorContext \<Rightarrow> real" where
  "genAvailableHeight ctx =
     HEIGHT (ctxDims ctx) - paddingTop (padding (ctxDims ctx))
       - paddingBottom (padding (ctxDims ctx)) - 20 - 25 - 10"

text \<open>
  Where \<open>minLineHeight\<close> is 0 the source divides by zero and gets \<open>Infinity\<close>, which the
  model does not have; the three densities of \<open>DENSITY_CONFIGS\<close> give 10, 13 and 17,
  and the facts below assume \<open>0 < minLineHeight\<close>.
\<close>

definition genDaysPerPage :: "BujoGeneratorContext \<Rightarrow> int" where
  "genDaysPerPage ctx = \<lfloor>genAvailableHeight ctx / genMinLineHeight ctx\<rfloor>"

text \<open>
  \<open>calendarPages > 1\<close>, where \<open>calendarPages = Math.ceil(daysInMonth / daysPerPage)\<close> is
  \<open>Infinity\<close> when \<open>daysPerPage\<close> is 0.
\<close>

definition genCalendarPagesGt1 :: "BujoGeneratorContext \<Rightarrow> JSDate \<Rightarrow> bool" where
  "genCalendarPagesGt1 ctx monthDate =
     (if genDaysPerPage ctx = 0 then True
      else \<lceil>real_of_int (getDaysInMonth monthDate) / real_of_int (genDaysPerPage ctx)\<rceil> > 1)"

definition genNeedsSplit :: "BujoGeneratorContext \<Rightarrow> JSDate \<Rightarrow> bool" where
  "genNeedsSplit ctx monthDate =
     (genCalendarPagesGt1 ctx monthDate
      \<or> real_of_int (getDaysInMonth monthDate) * lineHeight (ctxDensity ctx)
          > genAvailableHeight ctx)"

definition dayText :: "int \<Rightarrow> string" where
  "dayText dayIndex = padStart 2 CHR '' '' (numberToString dayIndex)"

text \<open>
  The rows of one calendar page:
  \<open>for (i = 0; i < daysOnThisPage && dayIndex <= daysInMonth; i++, dayIndex++)\<close>.
  It returns the document and the \<open>dayIndex\<close> it has reached.
\<close>

function dateRowsLoop ::
    "nat \<Rightarrow> real \<Rightarrow> real \<Rightarrow> real \<Rightarrow> int \<Rightarrow> int \<Rightarrow> int \<Rightarrow> int \<Rightarrow> real \<Rightarrow> PDFDocument
      \<Rightarrow> PDFDocument \<times> int" where
  "dateRowsLoop page left fsize lineH daysOnThisPage daysInMonth i dayIndex y doc =
     (if i < daysOnThisPage \<and> dayIndex \<le> daysInMonth
      then dateRowsLoop page left fsize lineH daysOnThisPage daysInMonth (i + 1) (dayIndex + 1)
             (y - lineH) (drawText page (dayText dayIndex) left y fsize doc)
      else (doc, dayIndex))"
  by pat_completeness auto
termination
  by (relation "measure (\<lambda>(page, left, fsize, lineH, daysOnThisPage, daysInMonth, i, dayIndex, y, doc).
        nat (daysOnThisPage - i))") auto

declare dateRowsLoop.simps [simp del]

definition calendarLabel :: "BujoGeneratorContext \<Rightarrow> JSDate \<Rightarrow> nat \<Rightarrow> string" where
  "calendarLabel ctx monthDate calendarPageNum =
     (if genCalendarPagesGt1 ctx monthDate
      then monthName monthDate @ '' Cal '' @ numberToString (int (calendarPageNum + 1))
      else monthName monthDate @ '' (Calendar)'')"

text \<open>
  \<open>while (dayIndex <= daysInMonth)\<close>: one calendar page for each turn.  The loop does
  not end when \<open>daysPerPage\<close> is below 1, since \<open>dayIndex\<close> then stays where it is.
\<close>

partial_function (option) calendarPagesLoop ::
    "BujoGeneratorContext \<Rightarrow> JSDate \<Rightarrow> int \<Rightarrow> nat \<Rightarrow> PDFDocument \<Rightarrow> PageRef list
      \<Rightarrow> (PDFDocument \<times> PageRef list) option" where
  "calendarPagesLoop ctx monthDate dayIndex calendarPageNum pdfDoc pageRefs =
     (if dayIndex \<le> getDaysInMonth monthDate
      then
        (let (page, doc1) = addPage pdfDoc;
             pageIdx = getPageCount doc1 - 1;
             (doc2, navY) = drawTopNavigation page (ctxFont ctx) (ctxDims ctx)
                              (getNavLabels Monthly (ctxNav ctx)) doc1;
             contentTop = drawPageTitle navY 11;
             daysOnThisPage = min (genDaysPerPage ctx) (getDaysInMonth monthDate - dayIndex + 1);
             lineH = max (genMinLineHeight ctx)
                       (genAvailableHeight ctx / real_of_int daysOnThisPage);
             (doc3, dayIndex') =
                dateRowsLoop page (paddingLeft (padding (ctxDims ctx)))
                  (fontSize (ctxDensity ctx)) lineH daysOnThisPage (getDaysInMonth monthDate)
                  0 dayIndex contentTop doc2;
             ref = \<lparr> label = calendarLabel ctx monthDate calendarPageNum,
                     pageIndex = pageIdx, type = Monthly, date = Some monthDate,
                     monthIndex = Some (getMonth monthDate), weekIndex = None,
                     yearMonth = Some (formatYearMonth monthDate) \<rparr>
         in calendarPagesLoop ctx monthDate dayIndex' (calendarPageNum + 1) doc3
              (pageRefs @ [ref]))
      else Some (pdfDoc, pageRefs))"

declare calendarPagesLoop.simps [code]

text \<open>The rows of the combined page: \<open>for (day = 1; day <= daysInMonth; day++)\<close>.\<close>

function combinedRowsLoop ::
    "nat \<Rightarrow> real \<Rightarrow> real \<Rightarrow> real \<Rightarrow> int \<Rightarrow> int \<Rightarrow> real \<Rightarrow> PDFDocument \<Rightarrow> PDFDocument" where
  "combinedRowsLoop page left fsize lineH daysInMonth day y doc =
     (if day \<le> daysInMonth
      then combinedRowsLoop page left fsize lineH daysInMonth (day + 1) (y - lineH)
             (drawText page (dayText day) left y fsize doc)
      else doc)"
  by pat_completeness auto
termination
  by (relation "measure (\<lambda>(page, left, fsize, lineH, daysInMonth, day, y, doc).
        nat (daysInMonth + 1 - day))") auto

declare combinedRowsLoop.simps [simp del]

definition generateMonthlyLog ::
    "BujoGeneratorContext \<Rightarrow> JSDate \<Rightarrow> PDFDocument \<Rightarrow> (PDFDocument \<times> PageRef list) option" where
  "generateMonthlyLog ctx monthDate pdfDoc =
     (if genNeedsSplit ctx monthDate
      then
        (case calendarPagesLoop ctx monthDate 1 0 pdfDoc [] of
           None \<Rightarrow> None
         | Some (doc1, pageRefs) \<Rightarrow>
             (let (taskPage, doc2) = addPage doc1;
                  taskPageIndex = getPageCount doc2 - 1;
                  (doc3, taskNavY) = drawTopNavigation taskPage (ctxFont ctx) (ctxDims ctx)
                                       (getNavLabels MonthlyTasks (ctxNav ctx)) doc2
              in Some (doc3, pageRefs @
                   [\<lparr> label = monthName monthDate @ '' (Tasks)'', pageIndex = taskPageIndex,
                      type = MonthlyTasks, date = Some monthDate,
                      monthIndex = Some (getMonth monthDate), weekIndex = None,
                      yearMonth = Some (formatYearMonth monthDate) \<rparr>])))
      else
        (let (page, doc1) = addPage pdfDoc;
             pageIdx = getPageCount doc1 - 1;
             (doc2, navY) = drawTopNavigation page (ctxFont ctx) (ctxDims ctx)
                              (getNavLabels Monthly (ctxNav ctx)) doc1;
             contentTop = drawPageTitle navY 11;
             lineH = min (lineHeight (ctxDensity ctx))
                       ((contentTop - paddingBottom (padding (ctxDims ctx)) - 10)
                          / real_of_int (getDaysInMonth monthDate));
             doc3 = combinedRowsLoop page (paddingLeft (padding (ctxDims ctx)))
                      (fontSize (ctxDensity ctx)) lineH (getDaysInMonth monthDate) 1
                      contentTop doc2
         in Some (doc3,
              [\<lparr> label = monthName monthDate, pageIndex = pageIdx, type = Monthly,
                 date = Some monthDate, monthIndex = Some (getMonth monthDate),
                 weekIndex = None, yearMonth = Some (formatYearMonth monthDate) \<rparr>,
               \<lparr> label = monthName monthDate @ '' (Tasks)'', pageIndex = pageIdx,
                 type = MonthlyTasks, date = Some monthDate,
                 monthIndex = Some (getMonth monthDate), weekIndex = None,
                 yearMonth = Some (formatYearMonth monthDate) \<rparr>])))"

section \<open>Links from calendar dates to daily pages (bujo/navigation.ts)\<close>

text \<open>
  \<open>monthlyPagesByYearMonth\<close>: the calendar references grouped by their \<open>yearMonth\<close>
  in a \<open>Map\<close>; a reference without \<open>yearMonth\<close> is skipped.
\<close>

fun groupMonthly ::
    "PageRef list \<Rightarrow> (string \<times> PageRef list) list \<Rightarrow> (string \<times> PageRef list) list" where
  "groupMonthly [] m = m"
| "groupMonthly (ref # refs) m =
     (if \<not> truthy (yearMonth ref) then groupMonthly refs m
      else
        (let pgs = (case map_of m (the (yearMonth ref)) of Some ps \<Rightarrow> ps | None \<Rightarrow> [])
         in groupMonthly refs (AList.update (the (yearMonth ref)) (pgs @ [ref]) m)))"

text \<open>The key built in the link pass from the parsed year and month and the day.\<close>

definition dateKeyOf :: "int \<Rightarrow> int \<Rightarrow> int \<Rightarrow> string" where
  "dateKeyOf year month dayIndex =
     numberToString year @ ''-'' @ padStart 2 CHR ''0'' (numberToString (month + 1))
       @ ''-'' @ padStart 2 CHR ''0'' (numberToString dayIndex)"

definition dateLink ::
    "PDFDocument \<Rightarrow> nat \<Rightarrow> PageRegistry \<Rightarrow> real \<Rightarrow> real \<Rightarrow> int \<Rightarrow> int \<Rightarrow> int \<Rightarrow> real
      \<Rightarrow> error + PDFDocument" where
  "dateLink doc page registry left fsize year month dayIndex y =
     (case map_of (dailyPages registry) (dateKeyOf year month dayIndex) of
        Some dailyPageIndex \<Rightarrow>
          createInternalLink doc page
            \<lparr> rectX = left - 2, rectY = y - 2, rectWidth = 28, rectHeight = fsize + 4 \<rparr>
            dailyPageIndex
      | None \<Rightarrow> Inr doc)"

text \<open>
  The rows of one calendar page in the split layout:
  \<open>for (i = 0; i < daysOnThisPage && dayIndex <= daysInMonth; i++, dayIndex++)\<close>.
\<close>

function linkRowsLoop ::
    "nat \<Rightarrow> PageRegistry \<Rightarrow> real \<Rightarrow> real \<Rightarrow> int \<Rightarrow> int \<Rightarrow> real \<Rightarrow> int \<Rightarrow> int
      \<Rightarrow> int \<Rightarrow> int \<Rightarrow> real \<Rightarrow> PDFDocument \<Rightarrow> error + (PDFDocument \<times> int)" where
  "linkRowsLoop page registry left fsize year month lineH daysOnThisPage daysInMonth
       i dayIndex y doc =
     (if i < daysOnThisPage \<and> dayIndex \<le> daysInMonth
      then (case dateLink doc page registry left fsize year month dayIndex y of
              Inl e \<Rightarrow> Inl e
            | Inr doc1 \<Rightarrow>
                linkRowsLoop page registry left fsize year month lineH daysOnThisPage
                  daysInMonth (i + 1) (dayIndex + 1) (y - lineH) doc1)
      else Inr (doc, dayIndex))"
  by pat_completeness auto
termination
  by (relation "measure (\<lambda>(page, registry, left, fsize, year, month, lineH, daysOnThisPage,
        daysInMonth, i, dayIndex, y, doc). nat (daysOnThisPage - i))") auto

declare linkRowsLoop.simps [simp del]

text \<open>\<open>for (const pageRef of monthPages)\<close> in the split layout.\<close>

fun linkPagesLoop ::
    "Dimensions \<Rightarrow> PageRegistry \<Rightarrow> DensityConfig \<Rightarrow> int \<Rightarrow> int \<Rightarrow> int \<Rightarrow> int \<Rightarrow> real
      \<Rightarrow> real \<Rightarrow> int \<Rightarrow> PageRef list \<Rightarrow> PDFDocument \<Rightarrow> error + PDFDocument" where
  "linkPagesLoop dims registry density year month daysInMonth daysPerPage minLineHeight
       availableHeight dayIndex [] doc = Inr doc"
| "linkPagesLoop dims registry density year month daysInMonth daysPerPage minLineHeight
       availableHeight dayIndex (pageRef # rest) doc =
     (case getPage doc (pageIndex pageRef) of
        Inl e \<Rightarrow> Inl e
      | Inr page \<Rightarrow>
          (let navY = HEIGHT dims - paddingTop (padding dims) - 7 - 2;
               navReturnY = navY - 7 - 6;
               contentTop = navReturnY - 11 - 8;
               daysOnThisPage = min daysPerPage (daysInMonth - dayIndex + 1);
               lineH = max minLineHeight (availableHeight / real_of_int daysOnThisPage)
           in case linkRowsLoop page registry (paddingLeft (padding dims)) (fontSize density)
                     year month lineH daysOnThisPage daysInMonth 0 dayIndex contentTop doc of
                Inl e \<Rightarrow> Inl e
              | Inr (doc1, dayIndex') \<Rightarrow>
                  linkPagesLoop dims registry density year month daysInMonth daysPerPage
                    minLineHeight availableHeight dayIndex' rest doc1))"

text \<open>\<open>for (let day = 1; day <= daysInMonth; day++)\<close> in the single-page layout.\<close>

function linkCombinedLoop ::
    "nat \<Rightarrow> PageRegistry \<Rightarrow> real \<Rightarrow> real \<Rightarrow> int \<Rightarrow> int \<Rightarrow> real \<Rightarrow> int \<Rightarrow> int \<Rightarrow> real
      \<Rightarrow> PDFDocument \<Rightarrow> error + PDFDocument" where
  "linkCombinedLoop page registry left fsize year month lineH daysInMonth day y doc =
     (if day \<le> daysInMonth
      then (case dateLink doc page registry left fsize year month day y of
              Inl e \<Rightarrow> Inl e
            | Inr doc1 \<Rightarrow>
                linkCombinedLoop page registry left fsize year month lineH daysInMonth
                  (day + 1) (y - lineH) doc1)
      else Inr doc)"
  by pat_completeness auto
termination
  by (relation "measure (\<lambda>(page, registry, left, fsize, year, month, lineH, daysInMonth,
        day, y, doc). nat (daysInMonth + 1 - day))") auto

declare linkCombinedLoop.simps [simp del]

text \<open>
  When the year or the month does not parse, \<open>daysInMonth\<close> is \<open>NaN\<close>: every
  comparison with it is false, so no row is visited; the pages are still fetched.
\<close>

fun fetchPages :: "PDFDocument \<Rightarrow> PageRef list \<Rightarrow> error + PDFDocument" where
  "fetchPages doc [] = Inr doc"
| "fetchPages doc (pageRef # rest) =
     (case getPage doc (pageIndex pageRef) of Inl e \<Rightarrow> Inl e | Inr _ \<Rightarrow> fetchPages doc rest)"

text \<open>
  The body of \<open>for (const [yearMonth, monthPages] of monthlyPagesByYearMonth)\<close>.  As in
  the generator, \<open>daysPerPage\<close> is \<open>Infinity\<close> in the source when \<open>minLineHeight\<close> is 0,
  which the model does not have.
\<close>

definition monthDateLinks ::
    "Dimensions \<Rightarrow> PageRegistry \<Rightarrow> DensityConfig \<Rightarrow> string \<times> PageRef list \<Rightarrow> PDFDocument
      \<Rightarrow> error + PDFDocument" where
  "monthDateLinks dims registry density entry doc =
     (let yearMonthKey = fst entry; monthPages = snd entry;
          minLineHeight = real_of_int (roundJS (lineHeight density * (7 / 10)));
          preferredLineHeight = lineHeight density;
          availableHeight = HEIGHT dims - paddingTop (padding dims)
                              - paddingBottom (padding dims) - 20 - 25 - 10;
          parts = split yearMonthKey CHR ''-'';
          year = parseInt (parts ! 0);
          monthPlus1 = (if 1 < length parts then parseInt (parts ! 1) else None)
      in case (year, monthPlus1) of
           (Some year, Some mp1) \<Rightarrow>
             (let month = mp1 - 1;
                  daysInMonth = lastDayOfMonth year month;
                  daysPerPage = \<lfloor>availableHeight / minLineHeight\<rfloor>;
                  isSplitLayout = (length monthPages > 1
                     \<or> real_of_int daysInMonth * preferredLineHeight > availableHeight)
              in if isSplitLayout
                 then linkPagesLoop dims registry density year month daysInMonth daysPerPage
                        minLineHeight availableHeight 1 monthPages doc
                 else
                   (case getPage doc (pageIndex (hd monthPages)) of
                      Inl e \<Rightarrow> Inl e
                    | Inr page \<Rightarrow>
                        (let navY = HEIGHT dims - paddingTop (padding dims) - 7 - 2;
                             navReturnY = navY - 7 - 6;
                             contentTop = navReturnY - 11 - 8;
                             lineH = min preferredLineHeight
                                       ((contentTop - paddingBottom (padding dims) - 10)
                                          / real_of_int daysInMonth)
                         in linkCombinedLoop page registry (paddingLeft (padding dims))
                              (fontSize density) year month lineH daysInMonth 1 contentTop doc)))
         | _ \<Rightarrow>
             (if length monthPages > 1 then fetchPages doc monthPages
              else fetchPages doc [hd monthPages]))"

fun monthsLoop ::
    "Dimensions \<Rightarrow> PageRegistry \<Rightarrow> DensityConfig \<Rightarrow> (string \<times> PageRef list) list
      \<Rightarrow> PDFDocument \<Rightarrow> error + PDFDocument" where
  "monthsLoop dims registry density [] doc = Inr doc"
| "monthsLoop dims registry density (entry # rest) doc =
     (case monthDateLinks dims registry density entry doc of
        Inl e \<Rightarrow> Inl e
      | Inr doc1 \<Rightarrow> monthsLoop dims registry density rest doc1)"

definition addMonthlyDateLinks ::
    "PDFDocument \<Rightarrow> Dimensions \<Rightarrow> PageRef list \<Rightarrow> PageRegistry \<Rightarrow> DensityConfig
      \<Rightarrow> error + PDFDocument" where
  "addMonthlyDateLinks pdfDoc dims pageRefs registry density =
     (let monthlyRefs = filter (\<lambda>ref. type ref = Monthly) pageRefs
      in if monthlyRefs = [] then Inr pdfDoc
         else monthsLoop dims registry density (groupMonthly monthlyRefs []) pdfDoc)"

section \<open>Closed forms used in the proofs\<close>

text \<open>
  The definitions of this section are not translations of source functions: they
  describe, in closed form, what the loops of the generator draw, and the facts below
  prove that the loops do so.
\<close>

definition rowTexts :: "real \<Rightarrow> real \<Rightarrow> real \<Rightarrow> real \<Rightarrow> int \<Rightarrow> nat \<Rightarrow> DrawnText list" where
  "rowTexts left fsize lineH y0 d0 n =
     map (\<lambda>k. \<lparr> dtText = dayText (d0 + int k), dtX = left,
                dtY = y0 - real k * lineH, dtSize = fsize \<rparr>) [0..<n]"

definition addTexts :: "nat \<Rightarrow> DrawnText list \<Rightarrow> PDFDocument \<Rightarrow> PDFDocument" where
  "addTexts page ts doc =
     doc\<lparr> texts := (texts doc)(page := texts doc page @ ts),
          normalized := (normalized doc)(page := normalized doc page \<or> ts \<noteq> []) \<rparr>"

fun navTexts :: "PDFFont \<Rightarrow> real \<Rightarrow> real \<Rightarrow> string list \<Rightarrow> DrawnText list" where
  "navTexts font navY navX [] = []"
| "navTexts font navY navX (item # rest) =
     \<lparr> dtText = item, dtX = navX, dtY = navY, dtSize = navFontSize \<rparr>
     # (if rest \<noteq> []
        then \<lparr> dtText = navSeparator, dtX = navX + font item navFontSize, dtY = navY,
               dtSize = navFontSize \<rparr>
             # navTexts font navY (navX + font item navFontSize + font navSeparator navFontSize) rest
        else [])"

definition genNavY :: "BujoGeneratorContext \<Rightarrow> real" where
  "genNavY ctx = HEIGHT (ctxDims ctx) - paddingTop (padding (ctxDims ctx)) - navFontSize - 2"

definition genContentTop :: "BujoGeneratorContext \<Rightarrow> real" where
  "genContentTop ctx = genNavY ctx - navFontSize - 6 - 11 - 8"

definition genNavTexts :: "BujoGeneratorContext \<Rightarrow> PageType \<Rightarrow> DrawnText list" where
  "genNavTexts ctx t =
     navTexts (ctxFont ctx) (genNavY ctx) (paddingLeft (padding (ctxDims ctx)))
       (getNavLabels t (ctxNav ctx))"

definition rowsOnPage :: "BujoGeneratorContext \<Rightarrow> JSDate \<Rightarrow> int \<Rightarrow> nat" where
  "rowsOnPage ctx md d = nat (min (genDaysPerPage ctx) (getDaysInMonth md - d + 1))"

definition calPageTexts :: "BujoGeneratorContext \<Rightarrow> JSDate \<Rightarrow> int \<Rightarrow> DrawnText list" where
  "calPageTexts ctx md d =
     genNavTexts ctx Monthly @
     rowTexts (paddingLeft (padding (ctxDims ctx))) (fontSize (ctxDensity ctx))
       (genAvailableHeight ctx / real (rowsOnPage ctx md d)) (genContentTop ctx) d
       (rowsOnPage ctx md d)"

definition calRef :: "BujoGeneratorContext \<Rightarrow> JSDate \<Rightarrow> nat \<Rightarrow> nat \<Rightarrow> PageRef" where
  "calRef ctx md c i =
     \<lparr> label = calendarLabel ctx md c, pageIndex = i, type = Monthly, date = Some md,
       monthIndex = Some (getMonth md), weekIndex = None,
       yearMonth = Some (formatYearMonth md) \<rparr>"

function calPlan :: "BujoGeneratorContext \<Rightarrow> JSDate \<Rightarrow> int \<Rightarrow> int list" where
  "calPlan ctx md d =
     (if d \<le> getDaysInMonth md \<and> 1 \<le> genDaysPerPage ctx
      then d # calPlan ctx md (d + int (rowsOnPage ctx md d)) else [])"
  by pat_completeness auto

termination
  by (relation "measure (\<lambda>(ctx, md, d). nat (getDaysInMonth md + 1 - d))")
     (auto simp: rowsOnPage_def)

declare calPlan.simps [simp del]

fun calResult ::
    "BujoGeneratorContext \<Rightarrow> JSDate \<Rightarrow> nat \<Rightarrow> int list \<Rightarrow> PDFDocument \<Rightarrow> PageRef list
      \<Rightarrow> PDFDocument \<times> PageRef list" where
  "calResult ctx md c [] doc refs = (doc, refs)"
| "calResult ctx md c (d # ds) doc refs =
     calResult ctx md (Suc c) ds
       (addTexts (objectCount doc) (calPageTexts ctx md d) (snd (addPage doc)))
       (refs @ [calRef ctx md c (length (pages doc))])"

section \<open>Example inputs\<close>

text \<open>A font whose every character is half as wide as the font size.\<close>

definition exFont :: PDFFont where
  "exFont s sz = sz * real (length s) / 2"

text \<open>The reMarkable 2 page (448 by 597 points) with a padding of 40, 24, 24, 24.\<close>

definition exDims :: Dimensions where
  "exDims = \<lparr> WIDTH = 448, HEIGHT = 597, MARGIN = 24, TOOLBAR_HEIGHT = 40,
      padding = \<lparr> paddingTop = 40, paddingBottom = 24, paddingLeft = 24, paddingRight = 24 \<rparr> \<rparr>"

definition collectionRef :: "nat \<Rightarrow> nat \<Rightarrow> PageRef" where
  "collectionRef n i =
     \<lparr> label = ''Collection '' @ numberToString (int n), pageIndex = i, type = Collection,
       date = None, monthIndex = None, weekIndex = None, yearMonth = None \<rparr>"

definition indexRef :: "nat \<Rightarrow> PageRef" where
  "indexRef i =
     \<lparr> label = ''Index'', pageIndex = i, type = Index,
       date = None, monthIndex = None, weekIndex = None, yearMonth = None \<rparr>"

text \<open>
  A cover, two collection pages with their navigation row drawn as
  \<open>generateCollectionPages\<close> does, and an index page inserted after the cover with its
  title drawn as \<open>createIndexPage\<close> does; the references of the last three.
\<close>

definition coverDoc :: PDFDocument where
  "coverDoc = snd (addPage createDocument)"



definition exRefs4 :: "PageRef list" where
  "exRefs4 = [indexRef 1, collectionRef 1 2, collectionRef 2 3]"

text \<open>References of the calendar and tasks pages of January 2025.\<close>

definition monthlyRef :: "string \<Rightarrow> nat \<Rightarrow> PageRef" where
  "monthlyRef l i =
     \<lparr> label = l, pageIndex = i, type = Monthly,
       date = Some \<lparr> getFullYear = 2025, getMonth = 0, getDate = 1 \<rparr>,
       monthIndex = Some 0, weekIndex = None, yearMonth = Some ''2025-01'' \<rparr>"

definition monthlyTasksRef :: "nat \<Rightarrow> PageRef" where
  "monthlyTasksRef i =
     \<lparr> label = ''January (Tasks)'', pageIndex = i, type = MonthlyTasks,
       date = Some \<lparr> getFullYear = 2025, getMonth = 0, getDate = 1 \<rparr>,
       monthIndex = Some 0, weekIndex = None, yearMonth = Some ''2025-01'' \<rparr>"

text \<open>A context on the example page, for each density; January 2025.\<close>

definition exCtx :: "DensityLevel \<Rightarrow> BujoGeneratorContext" where
  "exCtx lvl = \<lparr> ctxFont = exFont, ctxDims = exDims, ctxDensity = DENSITY_CONFIGS lvl,
       ctxNav = \<lparr> hasFutureLog = False, hasMonthlyLog = True, hasWeeklyReview = False,
                  hasDailyLog = True \<rparr> \<rparr>"

definition january2025 :: JSDate where
  "january2025 = \<lparr> getFullYear = 2025, getMonth = 0, getDate = 1 \<rparr>"

text \<open>The annotation that \<open>createInternalLink\<close> builds.\<close>

definition linkAnnotation :: "LinkRect \<Rightarrow> nat \<Rightarrow> LinkAnnotation" where
  "linkAnnotation rect targetPage =
     \<lparr> annotType = ''Annot'', annotSubtype = ''Link'',
       annotRect = [rectX rect, rectY rect,
                    rectX rect + rectWidth rect, rectY rect + rectHeight rect],
       annotBorder = [0, 0, 0],
       annotDest = (targetPage, ''XYZ'', None, None, None) \<rparr>"

text \<open>\<open>for (const ref of bujoPageRefs) ref.pageIndex += indexPageCount\<close> (generatePlannerPDF).\<close>

definition shiftPageRefs :: "nat \<Rightarrow> PageRef list \<Rightarrow> PageRef list" where
  "shiftPageRefs indexPageCount bujoPageRefs =
     map (\<lambda>ref. ref\<lparr> pageIndex := pageIndex ref + indexPageCount \<rparr>) bujoPageRefs"

section \<open>Closed forms of the date link pass\<close>

text \<open>
  Not translations of source functions either: \<open>addAnnots\<close> appends annotations to a
  page, and \<open>extends doc doc'\<close> says that \<open>doc'\<close> is \<open>doc\<close> with more annotations, which is
  all that a link pass does to a document.
\<close>

definition addAnnots :: "nat \<Rightarrow> LinkAnnotation list \<Rightarrow> PDFDocument \<Rightarrow> PDFDocument" where
  "addAnnots page as doc = doc\<lparr> annots := (annots doc)(page := annots doc page @ as) \<rparr>"

definition extends :: "PDFDocument \<Rightarrow> PDFDocument \<Rightarrow> bool" where
  "extends doc doc' =
     (pages doc' = pages doc \<and> texts doc' = texts doc \<and> normalized doc' = normalized doc
      \<and> (\<forall>p. \<exists>as. annots doc' p = annots doc p @ as))"

text \<open>
  The link over row \<open>k\<close> of a calendar page whose first row, at height \<open>y0\<close>, is day
  \<open>d0\<close>, when the registry has a daily page for that date; the links of the first \<open>n\<close>
  rows.
\<close>

definition rowLink ::
    "nat list \<Rightarrow> PageRegistry \<Rightarrow> real \<Rightarrow> real \<Rightarrow> int \<Rightarrow> int \<Rightarrow> real \<Rightarrow> real \<Rightarrow> int \<Rightarrow> nat
      \<Rightarrow> LinkAnnotation option" where
  "rowLink pgs registry left fsize year month lineH y0 d0 k =
     map_option
       (\<lambda>p. linkAnnotation
          \<lparr> rectX = left - 2, rectY = y0 - real k * lineH - 2, rectWidth = 28,
            rectHeight = fsize + 4 \<rparr> (pgs ! p))
       (map_of (dailyPages registry) (dateKeyOf year month (d0 + int k)))"

definition rowLinks ::
    "nat list \<Rightarrow> PageRegistry \<Rightarrow> real \<Rightarrow> real \<Rightarrow> int \<Rightarrow> int \<Rightarrow> real \<Rightarrow> real \<Rightarrow> int \<Rightarrow> nat
      \<Rightarrow> LinkAnnotation list" where
  "rowLinks pgs registry left fsize year month lineH y0 d0 n =
     List.map_filter (rowLink pgs registry left fsize year month lineH y0 d0) [0..<n]"

text \<open>Every daily page of the registry is among the first \<open>n\<close> pages.\<close>

definition targetsInRange :: "PageRegistry \<Rightarrow> nat \<Rightarrow> bool" where
  "targetsInRange registry n = (\<forall>k p. map_of (dailyPages registry) k = Some p \<longrightarrow> p < n)"

text \<open>The page for one day, with its navigation row drawn as \<open>generateDailyLog\<close> does.\<close>

definition dailyPage :: "BujoGeneratorContext \<Rightarrow> PDFDocument \<Rightarrow> PDFDocument" where
  "dailyPage ctx doc =
     (let (page, doc1) = addPage doc
      in fst (drawTopNavigation page (ctxFont ctx) (ctxDims ctx)
                (getNavLabels Daily (ctxNav ctx)) doc1))"

definition dailyRef :: "nat \<Rightarrow> nat \<Rightarrow> PageRef" where
  "dailyRef d i =
     \<lparr> label = ''January '' @ numberToString (int d), pageIndex = i, type = Daily,
       date = Some \<lparr> getFullYear = 2025, getMonth = 0, getDate = d \<rparr>,
       monthIndex = Some 0, weekIndex = None, yearMonth = Some ''2025-01'' \<rparr>"

text \<open>
  The planner of the example: the cover, the page of January 2025 in the compact
  density (calendar and tasks together), the page of 15 January, and then the index
  page inserted after the cover; the references of the content pages moved by one.
\<close>

definition exMonthDoc :: PDFDocument where
  "exMonthDoc = fst (the (generateMonthlyLog (exCtx Compact) january2025 coverDoc))"

definition exMonthRefs :: "PageRef list" where
  "exMonthRefs = snd (the (generateMonthlyLog (exCtx Compact) january2025 coverDoc))"

definition exPlanner :: PDFDocument where
  "exPlanner =
     (case insertPage (dailyPage (exCtx Compact) exMonthDoc) 1 of
        Inr (page, doc) \<Rightarrow>
          drawText page ''INDEX'' (MARGIN exDims)
            (HEIGHT exDims - MARGIN exDims - TOOLBAR_HEIGHT exDims - 5) 16 doc
      | Inl e \<Rightarrow> createDocument)"

definition exPlannerRefs :: "PageRef list" where
  "exPlannerRefs = indexRef 1 # shiftPageRefs 1 (exMonthRefs @ [dailyRef 15 2])"

section \<open>Facts about the registry and the resolver\<close>

lemma indexOfFrom_hd: "xs \<noteq> [] \<Longrightarrow> hd xs = v \<Longrightarrow> indexOfFrom i xs v = i"
  by (cases xs) auto

lemma indexOfFrom_last:
  "xs \<noteq> [] \<Longrightarrow> distinct xs \<Longrightarrow> indexOfFrom i xs (last xs) = i + int (length xs) - 1"
proof (induction xs arbitrary: i)
  case Nil
  then show ?case by simp
next
  case (Cons a as)
  show ?case
  proof (cases "as = []")
    case True
    then show ?thesis by simp
  next
    case False
    with Cons.prems have "a \<noteq> last as" by auto
    moreover have "indexOfFrom (i + 1) as (last as) = i + 1 + int (length as) - 1"
      using Cons.IH [of "i + 1"] False Cons.prems by simp
    ultimately show ?thesis using False by simp
  qed
qed

text \<open>
  C7 (boundary navigation).  For a \<open>prev\<close> item on a page that is the first entry of
  the list of its type, and for a \<open>next\<close> item on a page that is the last entry of that
  list (a list without repeated page indices, as the registry builds it from pages
  of one type), the resolver returns no target: it does not wrap around.
\<close>

theorem resolveNavTarget_boundary:
  assumes "map_of (pagesByType registry) (type ref) = Some typePages"
    and "typePages \<noteq> []"
  shows "(targetType item = Prev \<and> hd typePages = pageIndex ref
            \<longrightarrow> resolveNavTarget item ref registry = None)
       \<and> (targetType item = Next \<and> last typePages = pageIndex ref \<and> distinct typePages
            \<longrightarrow> resolveNavTarget item ref registry = None)"
proof (intro conjI impI)
  assume a: "targetType item = Prev \<and> hd typePages = pageIndex ref"
  then have "indexOf typePages (pageIndex ref) = 0"
    using assms(2) by (simp add: indexOf_def indexOfFrom_hd)
  then show "resolveNavTarget item ref registry = None"
    using a assms(1) by (simp add: resolveNavTarget_def)
next
  assume a: "targetType item = Next \<and> last typePages = pageIndex ref \<and> distinct typePages"
  then have "indexOf typePages (pageIndex ref) = int (length typePages) - 1"
    using assms(2) indexOfFrom_last [of typePages 0] by (simp add: indexOf_def)
  then show "resolveNavTarget item ref registry = None"
    using a assms(1) by (simp add: resolveNavTarget_def Let_def)
qed

theorem resolveNavTarget_boundary_witness:
  "map_of (pagesByType (buildPageRegistry exRefs4 1)) Collection = Some [2, 3]
   \<and> resolveNavTarget \<lparr> itemLabel = ''<'', targetType = Prev, targetKey = None \<rparr>
         (collectionRef 1 2) (buildPageRegistry exRefs4 1) = None
   \<and> resolveNavTarget \<lparr> itemLabel = ''>'', targetType = Next, targetKey = None \<rparr>
         (collectionRef 2 3) (buildPageRegistry exRefs4 1) = None"
proof -
  let ?reg = "buildPageRegistry exRefs4 1"
  have m: "map_of (pagesByType ?reg) Collection = Some [2, 3]"
    by (simp add: buildPageRegistry_def registerRef_def registerByKey_def pushByType_def
        emptyRegistry_def allPageTypes_def exRefs4_def collectionRef_def indexRef_def)
  have m1: "map_of (pagesByType ?reg) (type (collectionRef 1 2)) = Some [2, 3]"
    using m by (simp add: collectionRef_def)
  have m2: "map_of (pagesByType ?reg) (type (collectionRef 2 3)) = Some [2, 3]"
    using m by (simp add: collectionRef_def)
  have ne: "[2, 3 :: nat] \<noteq> []" by simp
  show ?thesis
    using m
      resolveNavTarget_boundary [OF m1 ne,
        of "\<lparr> itemLabel = ''<'', targetType = Prev, targetKey = None \<rparr>"]
      resolveNavTarget_boundary [OF m2 ne,
        of "\<lparr> itemLabel = ''>'', targetType = Next, targetKey = None \<rparr>"]
    by (simp add: collectionRef_def)
qed

section \<open>Facts about the link emitter\<close>










section \<open>The registry entry of a month split across calendar pages\<close>

text \<open>
  The references that \<open>generateMonthlyLog\<close> returns for January 2025 when the calendar
  takes two pages: two calendar pages and the tasks page, at the indices 4, 5 and 6.
\<close>

text \<open>
  C1.  \<open>Map.set\<close> replaces the value of a key that is present: of the two calendar
  pages of the month, the registry keeps the later one (index 5) as the month's
  entry, not the first (index 4).  The list of the pages of type monthly holds both
  indices in order.
\<close>

theorem buildPageRegistry_split_month:
  "map_of (monthlyCalPages (buildPageRegistry
       [monthlyRef ''January Cal 1'' 4, monthlyRef ''January Cal 2'' 5, monthlyTasksRef 6] 1))
     ''2025-01'' = Some 5
   \<and> map_of (pagesByType (buildPageRegistry
       [monthlyRef ''January Cal 1'' 4, monthlyRef ''January Cal 2'' 5, monthlyTasksRef 6] 1))
     Monthly = Some [4, 5]"
  by (simp add: buildPageRegistry_def registerRef_def registerByKey_def pushByType_def
        emptyRegistry_def allPageTypes_def monthlyRef_def monthlyTasksRef_def truthy_def)

section \<open>Facts about the monthly log generator\<close>

lemma getDaysInMonth_ge: "28 \<le> getDaysInMonth md"
  by (simp add: getDaysInMonth_def daysInMonthOf_def)

lemma addTexts_Nil [simp]: "addTexts page [] doc = doc"
  by (simp add: addTexts_def)

lemma addTexts_addTexts [simp]:
  "addTexts page ts2 (addTexts page ts1 doc) = addTexts page (ts1 @ ts2) doc"
  by (simp add: addTexts_def)

lemma drawText_addTexts:
  "drawText page s x y sz doc = addTexts page [\<lparr> dtText = s, dtX = x, dtY = y, dtSize = sz \<rparr>] doc"
  by (simp add: drawText_def addTexts_def)

lemma addTexts_fields [simp]:
  "pages (addTexts page ts doc) = pages doc"
  "objectCount (addTexts page ts doc) = objectCount doc"
  "annots (addTexts page ts doc) = annots doc"
  "texts (addTexts page ts doc) p = (if p = page then texts doc p @ ts else texts doc p)"
  "normalized (addTexts page ts doc) p =
     (if p = page then normalized doc p \<or> ts \<noteq> [] else normalized doc p)"
  by (simp_all add: addTexts_def)

lemma rowTexts_0 [simp]: "rowTexts left fsize lineH y0 d0 0 = []"
  by (simp add: rowTexts_def)

lemma rowTexts_Suc:
  "rowTexts left fsize lineH y0 d0 (Suc n) =
     \<lparr> dtText = dayText d0, dtX = left, dtY = y0, dtSize = fsize \<rparr>
       # rowTexts left fsize lineH (y0 - lineH) (d0 + 1) n"
proof -
  have "[0..<Suc n] = 0 # map Suc [0..<n]"
    by (simp add: upt_conv_Cons map_Suc_upt del: upt_Suc)
  then show ?thesis
    by (simp add: rowTexts_def comp_def algebra_simps del: upt_Suc)
qed

lemma dateRowsLoop_closed:
  "dateRowsLoop page left fsize lineH dotp dimo i d y doc =
     (addTexts page (rowTexts left fsize lineH y d (nat (min (dotp - i) (dimo - d + 1)))) doc,
      d + int (nat (min (dotp - i) (dimo - d + 1))))"
proof (induction page left fsize lineH dotp dimo i d y doc rule: dateRowsLoop.induct)
  case (1 page left fsize lineH dotp dimo i d y doc)
  show ?case
  proof (cases "i < dotp \<and> d \<le> dimo")
    case True
    then have n: "nat (min (dotp - i) (dimo - d + 1))
                  = Suc (nat (min (dotp - (i + 1)) (dimo - (d + 1) + 1)))"
    proof -
      have s: "nat v = Suc (nat (v - 1))" if "0 < v" for v :: int using that by simp
      have "min (dotp - (i + 1)) (dimo - (d + 1) + 1) = min (dotp - i) (dimo - d + 1) - 1"
        by (simp add: min_def)
      moreover have "0 < min (dotp - i) (dimo - d + 1)" using True by simp
      ultimately show ?thesis using s by metis
    qed
    show ?thesis
      using True 1 [OF True]
      by (subst dateRowsLoop.simps) (simp add: n rowTexts_Suc drawText_addTexts)
  next
    case False
    then have "nat (min (dotp - i) (dimo - d + 1)) = 0" by (auto simp: min_def)
    with False show ?thesis
      by (subst dateRowsLoop.simps) auto
  qed
qed

lemma drawNavLoop_closed:
  "drawNavLoop font page navY navX items doc = addTexts page (navTexts font navY navX items) doc"
proof (induction items arbitrary: navX doc)
  case Nil
  then show ?case by simp
next
  case (Cons item rest)
  then show ?case by (simp add: Let_def drawText_addTexts)
qed

lemma drawTopNavigation_closed:
  "drawTopNavigation page (ctxFont ctx) (ctxDims ctx) (getNavLabels t (ctxNav ctx)) doc =
     (addTexts page (genNavTexts ctx t) doc, genNavY ctx - navFontSize - 6)"
  by (simp add: drawTopNavigation_def drawNavLoop_closed genNavTexts_def genNavY_def Let_def)

lemma rowsOnPage_pos:
  "1 \<le> genDaysPerPage ctx \<Longrightarrow> d \<le> getDaysInMonth md \<Longrightarrow> 0 < rowsOnPage ctx md d"
  by (simp add: rowsOnPage_def)

lemma lineHeight_stretch:
  assumes "0 < genMinLineHeight ctx" "1 \<le> genDaysPerPage ctx" "d \<le> getDaysInMonth md"
  shows "max (genMinLineHeight ctx)
           (genAvailableHeight ctx
              / real_of_int (min (genDaysPerPage ctx) (getDaysInMonth md - d + 1)))
         = genAvailableHeight ctx / real (rowsOnPage ctx md d)"
proof -
  let ?n = "min (genDaysPerPage ctx) (getDaysInMonth md - d + 1)"
  have n: "1 \<le> ?n" "?n \<le> genDaysPerPage ctx" using assms by simp_all
  have "real_of_int (genDaysPerPage ctx) \<le> genAvailableHeight ctx / genMinLineHeight ctx"
    by (simp add: genDaysPerPage_def)
  then have "real_of_int ?n \<le> genAvailableHeight ctx / genMinLineHeight ctx"
    using n(2) by linarith
  then have "real_of_int ?n * genMinLineHeight ctx \<le> genAvailableHeight ctx"
    using assms(1) by (simp add: pos_le_divide_eq)
  then have "genMinLineHeight ctx \<le> genAvailableHeight ctx / real_of_int ?n"
    using n(1) by (simp add: pos_le_divide_eq mult.commute)
  moreover have "real_of_int ?n = real (rowsOnPage ctx md d)"
    using n(1) by (simp add: rowsOnPage_def)
  ultimately show ?thesis by (simp add: max_def)
qed

lemma calendarPagesLoop_step:
  assumes "0 < genMinLineHeight ctx" "1 \<le> genDaysPerPage ctx" "d \<le> getDaysInMonth md"
  shows "calendarPagesLoop ctx md d c doc refs =
     calendarPagesLoop ctx md (d + int (rowsOnPage ctx md d)) (Suc c)
       (addTexts (objectCount doc) (calPageTexts ctx md d) (snd (addPage doc)))
       (refs @ [calRef ctx md c (length (pages doc))])"
proof -
  have r: "min (genDaysPerPage ctx) (getDaysInMonth md - d + 1) = int (rowsOnPage ctx md d)"
    using assms by (simp add: rowsOnPage_def)
  have m: "min (int (rowsOnPage ctx md d)) (getDaysInMonth md - d + 1)
             = int (rowsOnPage ctx md d)"
    using r by linarith
  have s: "max (genMinLineHeight ctx) (genAvailableHeight ctx / real (rowsOnPage ctx md d))
             = genAvailableHeight ctx / real (rowsOnPage ctx md d)"
    using lineHeight_stretch [OF assms] r by simp
  show ?thesis
    apply (subst calendarPagesLoop.simps)
    apply (simp only: assms(3) if_True Let_def split_def addPage_def getPageCount_def fst_conv
        snd_conv drawTopNavigation_closed drawPageTitle_def dateRowsLoop_closed r m s
        diff_zero nat_int of_int_of_nat_eq)
    apply (simp add: calPageTexts_def calRef_def genContentTop_def)
    done
qed

lemma calendarPagesLoop_stop:
  "\<not> d \<le> getDaysInMonth md \<Longrightarrow> calendarPagesLoop ctx md d c doc refs = Some (doc, refs)"
  by (subst calendarPagesLoop.simps) simp

lemma calendarPagesLoop_plan:
  assumes "0 < genMinLineHeight ctx" "1 \<le> genDaysPerPage ctx"
  shows "calendarPagesLoop ctx md d c doc refs
           = Some (calResult ctx md c (calPlan ctx md d) doc refs)"
  using assms
proof (induction ctx md d arbitrary: c doc refs rule: calPlan.induct)
  case (1 ctx md d)
  show ?case
  proof (cases "d \<le> getDaysInMonth md")
    case True
    then have p: "calPlan ctx md d = d # calPlan ctx md (d + int (rowsOnPage ctx md d))"
      using "1.prems" by (subst calPlan.simps) simp
    show ?thesis
      using "1.IH" [OF _ "1.prems"] True "1.prems"
      by (simp add: calendarPagesLoop_step [OF "1.prems" True] p)
  next
    case False
    then have "calPlan ctx md d = []" by (subst calPlan.simps) simp
    with False show ?thesis by (simp add: calendarPagesLoop_stop)
  qed
qed

lemma map_upt_Suc_shift: "map f [0..<Suc n] = f 0 # map (\<lambda>j. f (Suc j)) [0..<n]"
proof -
  have "[0..<Suc n] = 0 # map Suc [0..<n]"
    by (simp add: upt_conv_Cons map_Suc_upt del: upt_Suc)
  then show ?thesis by (simp add: comp_def del: upt_Suc)
qed

lemma calResult_pages:
  "pages (fst (calResult ctx md c ds doc refs))
     = pages doc @ map (\<lambda>j. objectCount doc + j) [0..<length ds]
   \<and> objectCount (fst (calResult ctx md c ds doc refs)) = objectCount doc + length ds
   \<and> annots (fst (calResult ctx md c ds doc refs)) = annots doc"
proof (induction ds arbitrary: c doc refs)
  case Nil
  then show ?case by simp
next
  case (Cons d ds)
  show ?case
    by (simp add: Cons.IH addPage_def map_upt_Suc_shift del: upt_Suc)
qed

lemma calResult_refs:
  "snd (calResult ctx md c ds doc refs)
     = refs @ map (\<lambda>j. calRef ctx md (c + j) (length (pages doc) + j)) [0..<length ds]"
proof (induction ds arbitrary: c doc refs)
  case Nil
  then show ?case by simp
next
  case (Cons d ds)
  show ?case
    by (simp add: Cons.IH addPage_def map_upt_Suc_shift del: upt_Suc)
qed

lemma calResult_texts:
  "texts (fst (calResult ctx md c ds doc refs)) p
     = (if objectCount doc \<le> p \<and> p < objectCount doc + length ds
        then texts doc p @ calPageTexts ctx md (ds ! (p - objectCount doc))
        else texts doc p)"
proof (induction ds arbitrary: c doc refs)
  case Nil
  then show ?case by auto
next
  case (Cons d ds)
  show ?case
    by (auto simp: Cons.IH addPage_def nth_Cons' Suc_diff_le)
qed

lemma calPlan_length:
  assumes "1 \<le> genDaysPerPage ctx" "d \<le> getDaysInMonth md + 1"
  shows "int (length (calPlan ctx md d))
           = \<lceil>real_of_int (getDaysInMonth md - d + 1) / real_of_int (genDaysPerPage ctx)\<rceil>"
  using assms
proof (induction ctx md d rule: calPlan.induct)
  case (1 ctx md d)
  let ?N = "getDaysInMonth md" and ?p = "genDaysPerPage ctx"
  show ?case
  proof (cases "d \<le> ?N")
    case True
    let ?n = "int (rowsOnPage ctx md d)"
    have n: "?n = min ?p (?N - d + 1)" using True "1.prems" by (simp add: rowsOnPage_def)
    have pl: "calPlan ctx md d = d # calPlan ctx md (d + ?n)"
      using True "1.prems" by (subst calPlan.simps) simp
    have le: "d + ?n \<le> ?N + 1" using n by linarith
    have ih: "int (length (calPlan ctx md (d + ?n)))
                = \<lceil>real_of_int (?N - (d + ?n) + 1) / real_of_int ?p\<rceil>"
      using "1.IH" [OF _ "1.prems"(1) le] True "1.prems"(1) by simp
    have "\<lceil>real_of_int (?N - d + 1) / real_of_int ?p\<rceil>
            = 1 + \<lceil>real_of_int (?N - (d + ?n) + 1) / real_of_int ?p\<rceil>"
    proof (cases "?p \<le> ?N - d + 1")
      case True
      then have "?n = ?p" using n by simp
      then have "real_of_int (?N - (d + ?n) + 1) / real_of_int ?p
                   = real_of_int (?N - d + 1) / real_of_int ?p - 1"
        using "1.prems"(1) by (simp add: field_simps)
      then show ?thesis by simp
    next
      case False
      then have e: "?n = ?N - d + 1" using n by simp
      have "\<lceil>real_of_int (?N - d + 1) / real_of_int ?p\<rceil> = 1"
        using False True "1.prems"(1) by (intro ceiling_unique) (simp_all add: field_simps)
      then show ?thesis using e by simp
    qed
    then show ?thesis using pl ih by simp
  next
    case False
    then have "calPlan ctx md d = []" by (subst calPlan.simps) simp
    moreover have "?N - d + 1 = 0" using False "1.prems"(2) by simp
    ultimately show ?thesis by simp
  qed
qed

lemma calPlan_nth:
  assumes "j < length (calPlan ctx md d)"
  shows "calPlan ctx md d ! j = d + int j * genDaysPerPage ctx"
  using assms
proof (induction ctx md d arbitrary: j rule: calPlan.induct)
  case (1 ctx md d)
  let ?N = "getDaysInMonth md" and ?p = "genDaysPerPage ctx"
  let ?n = "int (rowsOnPage ctx md d)"
  from "1.prems" have c: "d \<le> ?N \<and> 1 \<le> ?p"
    by (subst (asm) calPlan.simps) (auto split: if_splits)
  then have pl: "calPlan ctx md d = d # calPlan ctx md (d + ?n)"
    by (subst calPlan.simps) simp
  show ?case
  proof (cases j)
    case 0
    then show ?thesis using pl by simp
  next
    case (Suc k)
    with "1.prems" pl have k: "k < length (calPlan ctx md (d + ?n))" by simp
    then have "d + ?n \<le> ?N"
      by (subst (asm) calPlan.simps) (auto split: if_splits)
    moreover have "?n = min ?p (?N - d + 1)" using c by (simp add: rowsOnPage_def)
    ultimately have "?n = ?p" by linarith
    then show ?thesis using "1.IH" [OF c k] pl Suc by (simp add: algebra_simps)
  qed
qed

lemma daysPerPage_ge1:
  assumes "0 < genMinLineHeight ctx" "genMinLineHeight ctx \<le> genAvailableHeight ctx"
  shows "1 \<le> genDaysPerPage ctx"
proof -
  have "1 \<le> genAvailableHeight ctx / genMinLineHeight ctx"
    using assms by (simp add: pos_le_divide_eq)
  then show ?thesis unfolding genDaysPerPage_def by (simp add: le_floor_iff)
qed

lemma calPlan_nth_le:
  assumes "1 \<le> genDaysPerPage ctx" "j < length (calPlan ctx md 1)"
  shows "1 + int j * genDaysPerPage ctx \<le> getDaysInMonth md"
proof -
  let ?N = "getDaysInMonth md" and ?p = "genDaysPerPage ctx"
  have "0 \<le> ?N" using assms(2) by (subst (asm) calPlan.simps) (auto split: if_splits)
  then have "int (length (calPlan ctx md 1)) = \<lceil>real_of_int ?N / real_of_int ?p\<rceil>"
    using calPlan_length [OF assms(1), of 1 md] by simp
  then have "int j < \<lceil>real_of_int ?N / real_of_int ?p\<rceil>" using assms(2) by linarith
  then have "real_of_int (int j) < real_of_int ?N / real_of_int ?p"
    by (simp add: less_ceiling_iff)
  then have "real_of_int (int j) * real_of_int ?p < real_of_int ?N"
    using assms(1) by (simp add: pos_less_divide_eq)
  then have "int j * ?p < ?N" by (metis of_int_less_iff of_int_mult)
  then show ?thesis by simp
qed

text \<open>
  C6 (pagination, overflow case).  When the generator takes the split layout and at
  least one row fits on a page (\<open>0 < Rmin \<le> H\<close>), it returns, and with
  \<open>rowsPerPage = floor (H / Rmin)\<close> it has added \<open>k = ceil (N / rowsPerPage)\<close> calendar pages
  and one tasks page.  Page \<open>j\<close> holds \<open>n = min rowsPerPage (N - j * rowsPerPage)\<close> rows, never
  none, beginning with day \<open>1 + j * rowsPerPage\<close>, and its rows lie \<open>H / n\<close> apart
  from the top of the content: row height is \<open>H\<close> divided by the rows on that page.
\<close>

theorem generateMonthlyLog_split:
  assumes "genNeedsSplit ctx md" and "0 < genMinLineHeight ctx"
    and "genMinLineHeight ctx \<le> genAvailableHeight ctx"
  shows "\<exists>doc' refs.
     generateMonthlyLog ctx md pdfDoc = Some (doc', refs)
   \<and> (let N = getDaysInMonth md;
           rowsPerPage = \<lfloor>genAvailableHeight ctx / genMinLineHeight ctx\<rfloor>;
           k = nat \<lceil>real_of_int N / real_of_int rowsPerPage\<rceil>
       in length (pages doc') = length (pages pdfDoc) + k + 1
        \<and> map type refs = replicate k Monthly @ [MonthlyTasks]
        \<and> (\<forall>j<k. pageIndex (refs ! j) = length (pages pdfDoc) + j
              \<and> (let n = nat (min rowsPerPage (N - int j * rowsPerPage));
                      page = pages doc' ! (length (pages pdfDoc) + j)
                  in 0 < n
                   \<and> texts doc' page = texts pdfDoc page @ genNavTexts ctx Monthly @
                        rowTexts (paddingLeft (padding (ctxDims ctx))) (fontSize (ctxDensity ctx))
                          (genAvailableHeight ctx / real n) (genContentTop ctx)
                          (1 + int j * rowsPerPage) n)))"
proof -
  let ?N = "getDaysInMonth md" and ?p = "genDaysPerPage ctx"
  let ?plan = "calPlan ctx md 1"
  let ?k = "length ?plan"
  let ?r = "calResult ctx md 0 ?plan pdfDoc []"
  have p1: "1 \<le> ?p" using daysPerPage_ge1 [OF assms(2,3)] .
  have loop: "calendarPagesLoop ctx md 1 0 pdfDoc [] = Some ?r"
    using calendarPagesLoop_plan [OF assms(2) p1] .
  let ?doc' = "addTexts (objectCount (fst ?r)) (genNavTexts ctx MonthlyTasks) (snd (addPage (fst ?r)))"
  let ?taskRef = "\<lparr> label = monthName md @ '' (Tasks)'', pageIndex = length (pages (fst ?r)),
                      type = MonthlyTasks, date = Some md,
                      monthIndex = Some (getMonth md), weekIndex = None,
                      yearMonth = Some (formatYearMonth md) \<rparr>"
  have gen: "generateMonthlyLog ctx md pdfDoc = Some (?doc', snd ?r @ [?taskRef])"
    using assms(1)
    by (simp add: generateMonthlyLog_def loop split_def case_prod_beta Let_def drawTopNavigation_closed
        addPage_def getPageCount_def)
  have k: "int ?k = \<lceil>real_of_int ?N / real_of_int ?p\<rceil>"
    using calPlan_length [OF p1, of 1 md] getDaysInMonth_ge [of md] by simp
  then have k': "nat \<lceil>real_of_int ?N / real_of_int ?p\<rceil> = ?k" by linarith
  have pg: "pages ?doc' = pages pdfDoc @ map (\<lambda>j. objectCount pdfDoc + j) [0..<?k]
                @ [objectCount pdfDoc + ?k]"
    by (simp add: calResult_pages addPage_def)
  have len: "length (pages ?doc') = length (pages pdfDoc) + ?k + 1"
    using pg by simp
  have refs: "snd ?r = map (\<lambda>j. calRef ctx md j (length (pages pdfDoc) + j)) [0..<?k]"
    by (simp add: calResult_refs)
  have ty: "map type (snd ?r @ [?taskRef]) = replicate ?k Monthly @ [MonthlyTasks]"
    by (simp add: refs calRef_def comp_def map_replicate_const)
  have rows: "pageIndex ((snd ?r @ [?taskRef]) ! j) = length (pages pdfDoc) + j
      \<and> 0 < nat (min ?p (?N - int j * ?p))
      \<and> texts ?doc' (pages ?doc' ! (length (pages pdfDoc) + j))
          = texts pdfDoc (pages ?doc' ! (length (pages pdfDoc) + j)) @ genNavTexts ctx Monthly @
              rowTexts (paddingLeft (padding (ctxDims ctx))) (fontSize (ctxDensity ctx))
                (genAvailableHeight ctx / real (nat (min ?p (?N - int j * ?p))))
                (genContentTop ctx) (1 + int j * ?p) (nat (min ?p (?N - int j * ?p)))"
    if j: "j < ?k" for j
  proof -
    have pj: "pages ?doc' ! (length (pages pdfDoc) + j) = objectCount pdfDoc + j"
      unfolding pg using j by (simp add: nth_append)
    have nj: "?plan ! j = 1 + int j * ?p" using calPlan_nth [OF j] .
    have le: "1 + int j * ?p \<le> ?N" using calPlan_nth_le [OF p1 j] .
    have rp: "rowsOnPage ctx md (1 + int j * ?p) = nat (min ?p (?N - int j * ?p))"
      by (simp add: rowsOnPage_def algebra_simps)
    have pos: "0 < nat (min ?p (?N - int j * ?p))" using le p1 by simp
    have r1: "pageIndex ((snd ?r @ [?taskRef]) ! j) = length (pages pdfDoc) + j"
      using j by (simp add: refs nth_append calRef_def)
    have "texts ?doc' (objectCount pdfDoc + j)
            = texts pdfDoc (objectCount pdfDoc + j) @ calPageTexts ctx md (?plan ! j)"
      using j by (simp add: calResult_texts calResult_pages addPage_def)
    then show ?thesis using r1 pos pj nj rp by (simp add: calPageTexts_def)
  qed
  show ?thesis
    unfolding Let_def genDaysPerPage_def [symmetric] k'
    using gen len ty rows by blast
qed

lemma exCtx_values:
  "genAvailableHeight (exCtx lvl) = 478"
  "genMinLineHeight (exCtx Compact) = 10"
  "genMinLineHeight (exCtx Normal) = 13"
  "genMinLineHeight (exCtx Comfortable) = 17"
  "getDaysInMonth january2025 = 31"
  by (simp_all add: genAvailableHeight_def genMinLineHeight_def exCtx_def exDims_def
      DENSITY_CONFIGS_def roundJS_def getDaysInMonth_def daysInMonthOf_def january2025_def)

lemma combinedRowsLoop_closed:
  "combinedRowsLoop page left fsize lineH dimo day y doc =
     addTexts page (rowTexts left fsize lineH y day (nat (dimo + 1 - day))) doc"
proof (induction page left fsize lineH dimo day y doc rule: combinedRowsLoop.induct)
  case (1 page left fsize lineH dimo day y doc)
  show ?case
  proof (cases "day \<le> dimo")
    case True
    then have n: "nat (dimo + 1 - day) = Suc (nat (dimo + 1 - (day + 1)))" by simp
    show ?thesis
      using True 1 [OF True]
      by (subst combinedRowsLoop.simps) (simp add: n rowTexts_Suc drawText_addTexts)
  next
    case False
    then show ?thesis by (subst combinedRowsLoop.simps) simp
  qed
qed

lemma generateMonthlyLog_combined_result:
  assumes "real_of_int (getDaysInMonth md) * lineHeight (ctxDensity ctx) \<le> genAvailableHeight ctx"
    and "0 < genMinLineHeight ctx"
    and "genMinLineHeight ctx \<le> lineHeight (ctxDensity ctx)"
  shows "generateMonthlyLog ctx md pdfDoc =
     Some (addTexts (objectCount pdfDoc)
             (genNavTexts ctx Monthly @
              rowTexts (paddingLeft (padding (ctxDims ctx))) (fontSize (ctxDensity ctx))
                (lineHeight (ctxDensity ctx)) (genContentTop ctx) 1 (nat (getDaysInMonth md)))
             (snd (addPage pdfDoc)),
           [\<lparr> label = monthName md, pageIndex = length (pages pdfDoc), type = Monthly,
              date = Some md, monthIndex = Some (getMonth md),
              weekIndex = None, yearMonth = Some (formatYearMonth md) \<rparr>,
            \<lparr> label = monthName md @ '' (Tasks)'', pageIndex = length (pages pdfDoc),
              type = MonthlyTasks, date = Some md,
              monthIndex = Some (getMonth md), weekIndex = None,
              yearMonth = Some (formatYearMonth md) \<rparr>])"
proof -
  let ?N = "getDaysInMonth md" and ?p = "genDaysPerPage ctx"
  let ?R = "lineHeight (ctxDensity ctx)" and ?H = "genAvailableHeight ctx"
  let ?m = "genMinLineHeight ctx"
  have N: "28 \<le> ?N" by (rule getDaysInMonth_ge)
  then have Npos: "0 < real_of_int ?N" by simp
  have "real_of_int ?N * ?m \<le> real_of_int ?N * ?R"
    using assms(3) Npos by simp
  then have "real_of_int ?N * ?m \<le> ?H" using assms(1) by linarith
  then have "real_of_int ?N \<le> ?H / ?m" using assms(2) by (simp add: pos_le_divide_eq)
  then have Np: "?N \<le> ?p" by (simp add: genDaysPerPage_def le_floor_iff)
  then have p0: "?p \<noteq> 0" "0 < ?p" using N by simp_all
  have "real_of_int ?N / real_of_int ?p \<le> 1" using Np p0 by (simp add: pos_divide_le_eq)
  then have "\<lceil>real_of_int ?N / real_of_int ?p\<rceil> \<le> 1" by (simp add: ceiling_le_iff)
  then have ns: "\<not> genNeedsSplit ctx md"
    using p0 assms(1) by (simp add: genNeedsSplit_def genCalendarPagesGt1_def)
  have ct: "genContentTop ctx - paddingBottom (padding (ctxDims ctx)) - 10 = ?H + 4"
    by (simp add: genContentTop_def genNavY_def genAvailableHeight_def navFontSize_def)
  have "?R \<le> (?H + 4) / real_of_int ?N"
    using assms(1) Npos by (simp add: pos_le_divide_eq mult.commute)
  then have mn: "min ?R ((genContentTop ctx - paddingBottom (padding (ctxDims ctx)) - 10)
                          / real_of_int ?N) = ?R"
    unfolding ct by simp
  have ct2: "genNavY ctx - navFontSize - 6 - 11 - 8 = genContentTop ctx"
    by (simp add: genContentTop_def)
  show ?thesis
    using ns
    apply (simp only: generateMonthlyLog_def if_False Let_def split_def addPage_def fst_conv
        snd_conv getPageCount_def drawTopNavigation_closed drawPageTitle_def ct2 mn
        combinedRowsLoop_closed case_prod_beta)
    apply simp
    done
qed

text \<open>
  C5 (pagination, one-page case), as the code has it.  Whenever \<open>N * Rpref \<le> H\<close>
  (and \<open>0 < Rmin \<le> Rpref\<close>, as for every density), the generator returns with one
  new page that holds the calendar and the tasks, registered under both types, and
  draws all \<open>N\<close> rows on it \<open>Rpref\<close> apart: the row height is
  \<open>min Rpref ((contentTop - padding.bottom - 10) / N) = Rpref\<close>; the rows are not
  stretched to fill \<open>H\<close>.
\<close>

theorem generateMonthlyLog_combined:
  assumes "real_of_int (getDaysInMonth md) * lineHeight (ctxDensity ctx) \<le> genAvailableHeight ctx"
    and "0 < genMinLineHeight ctx"
    and "genMinLineHeight ctx \<le> lineHeight (ctxDensity ctx)"
  shows "\<exists>doc' r1 r2.
     generateMonthlyLog ctx md pdfDoc = Some (doc', [r1, r2])
   \<and> type r1 = Monthly \<and> type r2 = MonthlyTasks
   \<and> pageIndex r1 = length (pages pdfDoc) \<and> pageIndex r2 = length (pages pdfDoc)
   \<and> pages doc' = pages pdfDoc @ [objectCount pdfDoc]
   \<and> texts doc' (objectCount pdfDoc)
        = texts pdfDoc (objectCount pdfDoc) @ genNavTexts ctx Monthly @
            rowTexts (paddingLeft (padding (ctxDims ctx))) (fontSize (ctxDensity ctx))
              (lineHeight (ctxDensity ctx)) (genContentTop ctx) 1 (nat (getDaysInMonth md))"
  by (simp add: generateMonthlyLog_combined_result [OF assms] addPage_def)

theorem generateMonthlyLog_combined_witness:
  "real_of_int (getDaysInMonth january2025) * lineHeight (ctxDensity (exCtx Compact))
      \<le> genAvailableHeight (exCtx Compact)
   \<and> 0 < genMinLineHeight (exCtx Compact)
   \<and> genMinLineHeight (exCtx Compact) \<le> lineHeight (ctxDensity (exCtx Compact))
   \<and> (\<exists>doc' r1 r2.
     generateMonthlyLog (exCtx Compact) january2025 coverDoc = Some (doc', [r1, r2])
   \<and> type r1 = Monthly \<and> type r2 = MonthlyTasks
   \<and> pageIndex r1 = 1 \<and> pageIndex r2 = 1
   \<and> pages doc' = [0, 1]
   \<and> texts doc' 1
        = genNavTexts (exCtx Compact) Monthly @ rowTexts 24 8 14 516 1 31)"
proof -
  have h1: "real_of_int (getDaysInMonth january2025) * lineHeight (ctxDensity (exCtx Compact))
      \<le> genAvailableHeight (exCtx Compact)"
    by (simp add: exCtx_values) (simp add: exCtx_def DENSITY_CONFIGS_def)
  have h2: "0 < genMinLineHeight (exCtx Compact)" by (simp add: exCtx_values)
  have h3: "genMinLineHeight (exCtx Compact) \<le> lineHeight (ctxDensity (exCtx Compact))"
    by (simp add: exCtx_values) (simp add: exCtx_def DENSITY_CONFIGS_def)
  have c: "pages coverDoc = [0]" "objectCount coverDoc = 1" "texts coverDoc (Suc 0) = []"
    by (simp_all add: coverDoc_def addPage_def createDocument_def)
  have v: "paddingLeft (padding (ctxDims (exCtx Compact))) = 24"
    "fontSize (ctxDensity (exCtx Compact)) = 8"
    "lineHeight (ctxDensity (exCtx Compact)) = 14"
    "genContentTop (exCtx Compact) = 516"
    by (simp_all add: exCtx_def exDims_def DENSITY_CONFIGS_def genContentTop_def genNavY_def
        navFontSize_def)
  show ?thesis
    using h1 h2 h3 generateMonthlyLog_combined [OF h1 h2 h3, of coverDoc]
    by (simp add: c v exCtx_values)
qed

text \<open>
  The claim C5 as stated fails: on the example page with the compact density, January
  2025 has \<open>31 * 14 \<le> 478\<close>, the rows of the single page lie 14 apart, and
  \<open>478 / 31\<close> is not 14.  (The first seven texts of the page are the navigation row.)
\<close>

theorem generateMonthlyLog_one_page_counterexample:
  "real_of_int (getDaysInMonth january2025) * lineHeight (ctxDensity (exCtx Compact))
      \<le> genAvailableHeight (exCtx Compact)
   \<and> map dtY (take 3 (drop 7
         (texts (fst (the (generateMonthlyLog (exCtx Compact) january2025 coverDoc))) 1)))
       = [516, 516 - 14, 516 - 2 * 14]
   \<and> genAvailableHeight (exCtx Compact) / real_of_int (getDaysInMonth january2025) \<noteq> 14"
proof -
  have h1: "real_of_int (getDaysInMonth january2025) * lineHeight (ctxDensity (exCtx Compact))
      \<le> genAvailableHeight (exCtx Compact)"
    by (simp add: exCtx_values) (simp add: exCtx_def DENSITY_CONFIGS_def)
  have h2: "0 < genMinLineHeight (exCtx Compact)" by (simp add: exCtx_values)
  have h3: "genMinLineHeight (exCtx Compact) \<le> lineHeight (ctxDensity (exCtx Compact))"
    by (simp add: exCtx_values) (simp add: exCtx_def DENSITY_CONFIGS_def)
  have c: "objectCount coverDoc = 1" "texts coverDoc (Suc 0) = []"
    by (simp_all add: coverDoc_def addPage_def createDocument_def)
  have v: "paddingLeft (padding (ctxDims (exCtx Compact))) = 24"
    "fontSize (ctxDensity (exCtx Compact)) = 8"
    "lineHeight (ctxDensity (exCtx Compact)) = 14"
    "genContentTop (exCtx Compact) = 516"
    by (simp_all add: exCtx_def exDims_def DENSITY_CONFIGS_def genContentTop_def genNavY_def
        navFontSize_def)
  have n: "length (genNavTexts (exCtx Compact) Monthly) = 7"
    by (simp add: genNavTexts_def getNavLabels_def exCtx_def)
  have r: "take 3 (rowTexts 24 8 14 516 1 31) =
             [\<lparr> dtText = dayText 1, dtX = 24, dtY = 516, dtSize = 8 \<rparr>,
              \<lparr> dtText = dayText 2, dtX = 24, dtY = 516 - 14, dtSize = 8 \<rparr>,
              \<lparr> dtText = dayText 3, dtX = 24, dtY = 516 - 14 - 14, dtSize = 8 \<rparr>]"
  proof -
    have "rowTexts 24 8 14 516 1 (Suc (Suc (Suc 28))) =
            \<lparr> dtText = dayText 1, dtX = 24, dtY = 516, dtSize = 8 \<rparr>
            # \<lparr> dtText = dayText 2, dtX = 24, dtY = 516 - 14, dtSize = 8 \<rparr>
            # \<lparr> dtText = dayText 3, dtX = 24, dtY = 516 - 14 - 14, dtSize = 8 \<rparr>
            # rowTexts 24 8 14 (516 - 14 - 14 - 14) 4 28"
      by (simp only: rowTexts_Suc) simp
    moreover have "Suc (Suc (Suc 28)) = (31::nat)" by simp
    ultimately show ?thesis by simp
  qed
  have "texts (fst (the (generateMonthlyLog (exCtx Compact) january2025 coverDoc))) 1
          = genNavTexts (exCtx Compact) Monthly @ rowTexts 24 8 14 516 1 31"
    by (simp add: generateMonthlyLog_combined_result [OF h1 h2 h3] c v exCtx_values addPage_def)
  then have "map dtY (take 3 (drop 7
         (texts (fst (the (generateMonthlyLog (exCtx Compact) january2025 coverDoc))) 1)))
       = [516, 516 - 14, 516 - 2 * 14]"
    using n r by simp
  moreover have "genAvailableHeight (exCtx Compact)
                   / real_of_int (getDaysInMonth january2025) \<noteq> 14"
    by (simp add: exCtx_values)
  ultimately show ?thesis using h1 by blast
qed

theorem generateMonthlyLog_split_witness:
  "genNeedsSplit (exCtx Comfortable) january2025
   \<and> 0 < genMinLineHeight (exCtx Comfortable)
   \<and> genMinLineHeight (exCtx Comfortable) \<le> genAvailableHeight (exCtx Comfortable)
   \<and> (\<exists>doc' refs.
         generateMonthlyLog (exCtx Comfortable) january2025 coverDoc = Some (doc', refs)
       \<and> length (pages doc') = 4
       \<and> map type refs = [Monthly, Monthly, MonthlyTasks]
       \<and> pageIndex (refs ! 0) = 1 \<and> pageIndex (refs ! 1) = 2
       \<and> texts doc' (pages doc' ! 2)
            = texts coverDoc (pages doc' ! 2) @ genNavTexts (exCtx Comfortable) Monthly @
                rowTexts 24 10 (478 / 3) 516 29 3)"
proof -
  have h1: "genNeedsSplit (exCtx Comfortable) january2025"
    by (simp add: genNeedsSplit_def exCtx_values) (simp add: exCtx_def DENSITY_CONFIGS_def)
  have h2: "0 < genMinLineHeight (exCtx Comfortable)" by (simp add: exCtx_values)
  have h3: "genMinLineHeight (exCtx Comfortable) \<le> genAvailableHeight (exCtx Comfortable)"
    by (simp add: exCtx_values)
  have c: "length (pages coverDoc) = 1"
    by (simp add: coverDoc_def addPage_def createDocument_def)
  have v: "paddingLeft (padding (ctxDims (exCtx Comfortable))) = 24"
    "fontSize (ctxDensity (exCtx Comfortable)) = 10"
    "genContentTop (exCtx Comfortable) = 516"
    by (simp_all add: exCtx_def exDims_def DENSITY_CONFIGS_def genContentTop_def genNavY_def
        navFontSize_def)
  have k: "nat \<lceil>(31::real) / 28\<rceil> = 2" by simp
  from generateMonthlyLog_split [OF h1 h2 h3, of coverDoc]
  obtain doc' refs where
    g: "generateMonthlyLog (exCtx Comfortable) january2025 coverDoc = Some (doc', refs)"
    and l: "length (pages doc') = 4"
    and t0: "map type refs = replicate 2 Monthly @ [MonthlyTasks]"
    and r: "\<forall>j<2. pageIndex (refs ! j) = 1 + j
              \<and> (0 < nat (min 28 (31 - int j * 28))
                   \<and> texts doc' (pages doc' ! (1 + j)) = texts coverDoc (pages doc' ! (1 + j))
                        @ genNavTexts (exCtx Comfortable) Monthly @
                        rowTexts 24 10 (478 / real (nat (min 28 (31 - int j * 28)))) 516
                          (1 + int j * 28) (nat (min 28 (31 - int j * 28))))"
    by (simp add: Let_def exCtx_values c v k) blast
  from t0 have t: "map type refs = [Monthly, Monthly, MonthlyTasks]"
    by (simp add: numeral_2_eq_2)
  from r have r0: "pageIndex (refs ! 0) = 1" by simp
  from r have "pageIndex (refs ! 1) = 1 + 1
              \<and> (0 < nat (min 28 (31 - int 1 * 28))
                   \<and> texts doc' (pages doc' ! (1 + 1)) = texts coverDoc (pages doc' ! (1 + 1))
                        @ genNavTexts (exCtx Comfortable) Monthly @
                        rowTexts 24 10 (478 / real (nat (min 28 (31 - int 1 * 28)))) 516
                          (1 + int 1 * 28) (nat (min 28 (31 - int 1 * 28))))"
    by (rule allE [where x = 1]) simp
  then have r1: "pageIndex (refs ! 1) = 2"
    and r2: "texts doc' (pages doc' ! 2) = texts coverDoc (pages doc' ! 2)
               @ genNavTexts (exCtx Comfortable) Monthly @ rowTexts 24 10 (478 / 3) 516 29 3"
    by (simp_all add: numeral_2_eq_2)
  have "\<exists>doc' refs.
         generateMonthlyLog (exCtx Comfortable) january2025 coverDoc = Some (doc', refs)
       \<and> length (pages doc') = 4
       \<and> map type refs = [Monthly, Monthly, MonthlyTasks]
       \<and> pageIndex (refs ! 0) = 1 \<and> pageIndex (refs ! 1) = 2
       \<and> texts doc' (pages doc' ! 2)
            = texts coverDoc (pages doc' ! 2) @ genNavTexts (exCtx Comfortable) Monthly @
                rowTexts 24 10 (478 / 3) 516 29 3"
    by (rule exI [of _ doc'], rule exI [of _ refs]) (intro conjI g l t r0 r1 r2)
  with h1 h2 h3 show ?thesis by (intro conjI)
qed

lemma createInternalLink_eq:
  "createInternalLink doc page rect t = Inr doc' \<Longrightarrow>
     doc' = doc\<lparr> annots := (annots doc)(page := annots doc page @
                 [linkAnnotation rect (pages doc ! t)]) \<rparr>"
  by (auto simp: createInternalLink_def getPage_def Let_def linkAnnotation_def split: if_splits)

lemma getNavItemsForPage_labels:
  assumes "hasFutureLog nav = (futureLogPages registry \<noteq> [])"
    and "hasMonthlyLog nav = (monthlyCalPages registry \<noteq> [])"
    and "hasWeeklyReview nav = (weeklyPages registry \<noteq> [])"
  shows "map itemLabel (getNavItemsForPage ref registry) = getNavLabels (type ref) nav"
  using assms by (cases "type ref") (simp_all add: getNavItemsForPage_def getNavLabels_def Let_def)

lemma formatYearMonth_nonempty: "formatYearMonth d \<noteq> []"
  by (simp add: formatYearMonth_def Let_def)

text \<open>
  C10.  The labels at link time are not the drawn ones on a page that holds calendar
  and tasks together.  January 2025 in the compact density is one page; after an
  index page has been put before it, both of its references have the page index 2.
  The page was drawn once, with the labels of type monthly (\<open>Tasks\<close> in third place).
  For its second reference, of type monthly-tasks, the link pass takes the labels
  \<open><\<close>, \<open>Index\<close>, \<open>Calendar\<close>, \<open>>\<close>: the third label is not the drawn one, and being
  wider it moves the offset of the fourth.  For a reference whose type is the one its
  page was drawn for, the two label functions agree (\<open>getNavItemsForPage_labels\<close>).
\<close>

theorem combined_page_labels_counterexample:
  "pageIndex (shiftPageRefs 1 (snd (the (generateMonthlyLog (exCtx Compact) january2025 coverDoc))) ! 0) = 2
   \<and> pageIndex (shiftPageRefs 1 (snd (the (generateMonthlyLog (exCtx Compact) january2025 coverDoc))) ! 1) = 2
   \<and> type (shiftPageRefs 1 (snd (the (generateMonthlyLog (exCtx Compact) january2025 coverDoc))) ! 1)
       = MonthlyTasks
   \<and> map dtText (take 7
         (texts (fst (the (generateMonthlyLog (exCtx Compact) january2025 coverDoc))) 1))
       = [''<'', navSeparator, ''Index'', navSeparator, ''Tasks'', navSeparator, ''>'']
   \<and> map itemLabel (getNavItemsForPage
         (shiftPageRefs 1 (snd (the (generateMonthlyLog (exCtx Compact) january2025 coverDoc))) ! 1)
         (buildPageRegistry (indexRef 1 #
            shiftPageRefs 1 (snd (the (generateMonthlyLog (exCtx Compact) january2025 coverDoc)))) 1))
       = [''<'', ''Index'', ''Calendar'', ''>'']
   \<and> getNavLabels Monthly (ctxNav (exCtx Compact)) = [''<'', ''Index'', ''Tasks'', ''>'']"
proof -
  have h1: "real_of_int (getDaysInMonth january2025) * lineHeight (ctxDensity (exCtx Compact))
      \<le> genAvailableHeight (exCtx Compact)"
    by (simp add: exCtx_values) (simp add: exCtx_def DENSITY_CONFIGS_def)
  have h2: "0 < genMinLineHeight (exCtx Compact)" by (simp add: exCtx_values)
  have h3: "genMinLineHeight (exCtx Compact) \<le> lineHeight (ctxDensity (exCtx Compact))"
    by (simp add: exCtx_values) (simp add: exCtx_def DENSITY_CONFIGS_def)
  note g = generateMonthlyLog_combined_result [OF h1 h2 h3, of coverDoc]
  have c: "objectCount coverDoc = 1" "texts coverDoc (Suc 0) = []" "length (pages coverDoc) = 1"
    by (simp_all add: coverDoc_def addPage_def createDocument_def)
  have n: "genNavTexts (exCtx Compact) Monthly =
             navTexts exFont 548 24 [''<'', ''Index'', ''Tasks'', ''>'']"
    by (simp add: genNavTexts_def getNavLabels_def exCtx_def genNavY_def exDims_def navFontSize_def)
  have refs: "shiftPageRefs 1 (snd (the (generateMonthlyLog (exCtx Compact) january2025 coverDoc)))
     = [\<lparr> label = monthName january2025, pageIndex = 2, type = Monthly,
              date = Some january2025, monthIndex = Some (getMonth january2025),
              weekIndex = None, yearMonth = Some (formatYearMonth january2025) \<rparr>,
            \<lparr> label = monthName january2025 @ '' (Tasks)'', pageIndex = 2,
              type = MonthlyTasks, date = Some january2025,
              monthIndex = Some (getMonth january2025), weekIndex = None,
              yearMonth = Some (formatYearMonth january2025) \<rparr>]"
    by (simp add: g shiftPageRefs_def c)
  have t: "map dtText (take 7
         (texts (fst (the (generateMonthlyLog (exCtx Compact) january2025 coverDoc))) 1))
       = [''<'', navSeparator, ''Index'', navSeparator, ''Tasks'', navSeparator, ''>'']"
    by (simp add: g c n addPage_def)
  have f: "futureLogPages (buildPageRegistry (indexRef 1 #
            shiftPageRefs 1 (snd (the (generateMonthlyLog (exCtx Compact) january2025 coverDoc)))) 1)
          = []"
    unfolding refs
    by (simp add: buildPageRegistry_def registerRef_def registerByKey_def pushByType_def
        emptyRegistry_def allPageTypes_def indexRef_def truthy_def formatYearMonth_nonempty)
  have i: "map itemLabel (getNavItemsForPage
         (shiftPageRefs 1 (snd (the (generateMonthlyLog (exCtx Compact) january2025 coverDoc))) ! 1)
         (buildPageRegistry (indexRef 1 #
            shiftPageRefs 1 (snd (the (generateMonthlyLog (exCtx Compact) january2025 coverDoc)))) 1))
       = [''<'', ''Index'', ''Calendar'', ''>'']"
    unfolding refs using f [unfolded refs] by (simp add: getNavItemsForPage_def Let_def)
  have l: "getNavLabels Monthly (ctxNav (exCtx Compact)) = [''<'', ''Index'', ''Tasks'', ''>'']"
    by (simp add: getNavLabels_def exCtx_def)
  have p0: "pageIndex (shiftPageRefs 1 (snd (the (generateMonthlyLog (exCtx Compact) january2025 coverDoc))) ! 0) = 2"
    and p1: "pageIndex (shiftPageRefs 1 (snd (the (generateMonthlyLog (exCtx Compact) january2025 coverDoc))) ! 1) = 2"
    and ty: "type (shiftPageRefs 1 (snd (the (generateMonthlyLog (exCtx Compact) january2025 coverDoc))) ! 1)
       = MonthlyTasks"
    unfolding refs by simp_all
  show ?thesis by (intro conjI p0 p1 ty t i l)
qed

section \<open>Facts about number strings and date keys\<close>

lemma isDigit_not_special: "isDigit c \<Longrightarrow> c \<noteq> CHR ''-'' \<and> c \<noteq> CHR ''+'' \<and> c \<noteq> CHR '' ''"
  by (auto simp: isDigit_def)

lemma digitChar_props:
  assumes "d < 10"
  shows "isDigit (digitChar d)" "digitVal (digitChar d) = d"
proof -
  have "d \<in> {0,1,2,3,4,5,6,7,8,9}" using assms by auto
  then show "isDigit (digitChar d)" "digitVal (digitChar d) = d"
    by (auto simp: isDigit_def digitVal_def digitChar_def)
qed

lemma natToString_digits: "\<forall>c \<in> set (natToString n). isDigit c"
proof (induction n rule: natToString.induct)
  case (1 n)
  show ?case
  proof (cases "n < 10")
    case True
    then show ?thesis by (subst natToString.simps) (simp add: digitChar_props)
  next
    case False
    then show ?thesis using 1 by (subst natToString.simps) (simp add: digitChar_props)
  qed
qed

lemma natToString_nonempty: "natToString n \<noteq> []"
  by (subst natToString.simps) simp

lemma natToString_value: "foldl (\<lambda>acc c. 10 * acc + digitVal c) 0 (natToString n) = n"
proof (induction n rule: natToString.induct)
  case (1 n)
  show ?case
  proof (cases "n < 10")
    case True
    then show ?thesis by (subst natToString.simps) (simp add: digitChar_props)
  next
    case False
    then show ?thesis using 1 by (subst natToString.simps) (simp add: digitChar_props)
  qed
qed

lemma parseInt_digits:
  assumes "ds \<noteq> []" "\<forall>c \<in> set ds. isDigit c"
  shows "parseInt ds = Some (int (foldl (\<lambda>acc c. 10 * acc + digitVal c) 0 ds))"
proof -
  obtain c cs where ds: "ds = c # cs" using assms(1) by (cases ds) auto
  then have c: "isDigit c" using assms(2) by simp
  have t: "takeWhile isDigit ds = ds" using assms(2) by (simp add: takeWhile_eq_all_conv)
  show ?thesis
    using isDigit_not_special [OF c] t ds
    by (simp add: parseInt_def parseDigits_def Let_def)
qed

lemma parseInt_numberToString: "0 \<le> y \<Longrightarrow> parseInt (numberToString y) = Some y"
  by (simp add: numberToString_def parseInt_digits natToString_nonempty natToString_digits
      natToString_value)

lemma foldl_zeros:
  "foldl (\<lambda>acc c. 10 * acc + digitVal c) 0 (replicate k CHR ''0'') = 0"
  by (induction k) (simp_all add: digitVal_def)

lemma parseInt_padStart:
  "0 \<le> v \<Longrightarrow> parseInt (padStart 2 CHR ''0'' (numberToString v)) = Some v"
proof -
  assume v: "0 \<le> v"
  let ?s = "padStart 2 CHR ''0'' (numberToString v)"
  have z: "isDigit CHR ''0''" by (simp add: isDigit_def)
  have "?s \<noteq> []" using v by (simp add: padStart_def numberToString_def natToString_nonempty)
  moreover have "\<forall>c \<in> set ?s. isDigit c"
    using v natToString_digits z by (auto simp: padStart_def numberToString_def)
  ultimately have "parseInt ?s = Some (int (foldl (\<lambda>acc c. 10 * acc + digitVal c) 0 ?s))"
    by (rule parseInt_digits)
  then show ?thesis using v
    by (simp add: padStart_def numberToString_def foldl_zeros natToString_value)
qed

lemma splitOn_no_sep: "sep \<notin> set s \<Longrightarrow> splitOn sep cur s = [cur @ s]"
  by (induction s arbitrary: cur) auto

lemma splitOn_one_sep:
  "sep \<notin> set a \<Longrightarrow> sep \<notin> set b \<Longrightarrow> splitOn sep cur (a @ sep # b) = [cur @ a, b]"
  by (induction a arbitrary: cur) (auto simp: splitOn_no_sep)

lemma digits_no_dash: "\<forall>c \<in> set ds. isDigit c \<Longrightarrow> CHR ''-'' \<notin> set ds"
  using isDigit_not_special by blast

lemma split_formatYearMonth:
  assumes "0 \<le> getFullYear d"
  shows "split (formatYearMonth d) CHR ''-''
           = [numberToString (getFullYear d),
              padStart 2 CHR ''0'' (numberToString (int (getMonth d + 1)))]"
proof -
  have z: "isDigit CHR ''0''" by (simp add: isDigit_def)
  have a: "CHR ''-'' \<notin> set (numberToString (getFullYear d))"
    using assms natToString_digits by (auto simp: numberToString_def dest: isDigit_not_special)
  have "\<forall>c \<in> set (padStart 2 CHR ''0'' (numberToString (int (getMonth d + 1)))). isDigit c"
    using natToString_digits z by (auto simp: padStart_def numberToString_def)
  then have b: "CHR ''-'' \<notin> set (padStart 2 CHR ''0'' (numberToString (int (getMonth d + 1))))"
    by (rule digits_no_dash)
  show ?thesis
    using splitOn_one_sep [OF a b, of "[]"]
    by (simp add: split_def formatYearMonth_def Let_def)
qed

lemma dateKeyOf_formatDateKey:
  "dateKeyOf (getFullYear d) (int (getMonth d)) (int (getDate d)) = formatDateKey d"
  by (simp add: dateKeyOf_def formatDateKey_def Let_def add.commute)

section \<open>Facts about the date link pass\<close>

lemma addAnnots_Nil [simp]: "addAnnots page [] doc = doc"
  by (simp add: addAnnots_def)

lemma addAnnots_addAnnots [simp]:
  "addAnnots page as2 (addAnnots page as1 doc) = addAnnots page (as1 @ as2) doc"
  by (simp add: addAnnots_def)

lemma addAnnots_fields [simp]:
  "pages (addAnnots page as doc) = pages doc"
  "objectCount (addAnnots page as doc) = objectCount doc"
  "texts (addAnnots page as doc) = texts doc"
  "normalized (addAnnots page as doc) = normalized doc"
  "annots (addAnnots page as doc) p = (if p = page then annots doc p @ as else annots doc p)"
  by (simp_all add: addAnnots_def)

lemma extends_refl [simp]: "extends doc doc"
  by (simp add: extends_def)

lemma extends_trans: "extends a b \<Longrightarrow> extends b c \<Longrightarrow> extends a c"
  unfolding extends_def
proof (intro conjI allI)
  assume h: "pages b = pages a \<and> texts b = texts a \<and> normalized b = normalized a
               \<and> (\<forall>p. \<exists>as. annots b p = annots a p @ as)"
    "pages c = pages b \<and> texts c = texts b \<and> normalized c = normalized b
       \<and> (\<forall>p. \<exists>as. annots c p = annots b p @ as)"
  show "pages c = pages a" "texts c = texts a" "normalized c = normalized a" using h by simp_all
  fix p
  from h obtain as1 as2 where "annots b p = annots a p @ as1" "annots c p = annots b p @ as2"
    by blast
  then have "annots c p = annots a p @ (as1 @ as2)" by simp
  then show "\<exists>as. annots c p = annots a p @ as" by blast
qed

lemma extends_addAnnots [simp]: "extends doc (addAnnots page as doc)"
  by (simp add: extends_def)

lemma extends_mem: "extends doc doc' \<Longrightarrow> a \<in> set (annots doc p) \<Longrightarrow> a \<in> set (annots doc' p)"
  unfolding extends_def by (metis Un_iff set_append)

lemma dateLink_closed:
  "dateLink doc page registry left fsize year month d y = Inr doc1 \<Longrightarrow>
     doc1 = addAnnots page
              (case rowLink (pages doc) registry left fsize year month lineH y d 0 of
                 None \<Rightarrow> [] | Some a \<Rightarrow> [a]) doc"
  by (auto simp: dateLink_def rowLink_def addAnnots_def dest: createInternalLink_eq
      split: option.splits)

lemma rowLinks_0 [simp]: "rowLinks pgs registry left fsize year month lineH y0 d0 0 = []"
  by (simp add: rowLinks_def List.map_filter_simps)

lemma rowLinks_Suc:
  "rowLinks pgs registry left fsize year month lineH y0 d0 (Suc n) =
     (case rowLink pgs registry left fsize year month lineH y0 d0 0 of
        None \<Rightarrow> [] | Some a \<Rightarrow> [a])
     @ rowLinks pgs registry left fsize year month lineH (y0 - lineH) (d0 + 1) n"
proof -
  have u: "[0..<Suc n] = 0 # map Suc [0..<n]"
    by (simp add: upt_conv_Cons map_Suc_upt del: upt_Suc)
  have s: "rowLink pgs registry left fsize year month lineH y0 d0 (Suc k)
           = rowLink pgs registry left fsize year month lineH (y0 - lineH) (d0 + 1) k" for k
    by (simp add: rowLink_def algebra_simps)
  have m: "List.map_filter f (map Suc xs) = List.map_filter (\<lambda>k. f (Suc k)) xs" for f :: "nat \<Rightarrow> LinkAnnotation option" and xs
    by (induction xs) (auto simp: List.map_filter_simps split: option.splits)
  show ?thesis
    unfolding rowLinks_def u
    by (simp add: List.map_filter_simps m s split: option.splits del: upt_Suc)
qed

lemma linkRowsLoop_closed:
  "linkRowsLoop page registry left fsize year month lineH dotp dimo i d y doc = Inr (doc', d')
   \<Longrightarrow> doc' = addAnnots page
              (rowLinks (pages doc) registry left fsize year month lineH y d
                 (nat (min (dotp - i) (dimo - d + 1)))) doc
       \<and> d' = d + int (nat (min (dotp - i) (dimo - d + 1)))"
proof (induction page registry left fsize year month lineH dotp dimo i d y doc
       rule: linkRowsLoop.induct)
  case (1 page registry left fsize year month lineH dotp dimo i d y doc)
  show ?case
  proof (cases "i < dotp \<and> d \<le> dimo")
    case True
    have n: "nat (min (dotp - i) (dimo - d + 1))
                  = Suc (nat (min (dotp - (i + 1)) (dimo - (d + 1) + 1)))"
    proof -
      have s: "nat v = Suc (nat (v - 1))" if "0 < v" for v :: int using that by simp
      have "min (dotp - (i + 1)) (dimo - (d + 1) + 1) = min (dotp - i) (dimo - d + 1) - 1"
        by (simp add: min_def)
      moreover have "0 < min (dotp - i) (dimo - d + 1)" using True by simp
      ultimately show ?thesis using s by metis
    qed
    from "1.prems" True obtain doc1 where
      l: "dateLink doc page registry left fsize year month d y = Inr doc1"
      and r: "linkRowsLoop page registry left fsize year month lineH dotp dimo (i + 1) (d + 1)
                (y - lineH) doc1 = Inr (doc', d')"
      by (subst (asm) linkRowsLoop.simps) (auto split: sum.splits)
    note c = dateLink_closed [OF l, of lineH]
    have p: "pages doc1 = pages doc" by (subst c) simp
    from "1.IH" [OF True l r] show ?thesis
      unfolding n p by (subst (asm) c, subst (asm) c) (simp add: rowLinks_Suc)
  next
    case False
    then have "nat (min (dotp - i) (dimo - d + 1)) = 0" by (auto simp: min_def)
    with False "1.prems" show ?thesis
      by (subst (asm) linkRowsLoop.simps) auto
  qed
qed

lemma linkCombinedLoop_closed:
  "linkCombinedLoop page registry left fsize year month lineH dimo day y doc = Inr doc'
   \<Longrightarrow> doc' = addAnnots page
              (rowLinks (pages doc) registry left fsize year month lineH y day
                 (nat (dimo + 1 - day))) doc"
proof (induction page registry left fsize year month lineH dimo day y doc
       rule: linkCombinedLoop.induct)
  case (1 page registry left fsize year month lineH dimo day y doc)
  show ?case
  proof (cases "day \<le> dimo")
    case True
    then have n: "nat (dimo + 1 - day) = Suc (nat (dimo + 1 - (day + 1)))" by simp
    from "1.prems" True obtain doc1 where
      l: "dateLink doc page registry left fsize year month day y = Inr doc1"
      and r: "linkCombinedLoop page registry left fsize year month lineH dimo (day + 1)
                (y - lineH) doc1 = Inr doc'"
      by (subst (asm) linkCombinedLoop.simps) (auto split: sum.splits)
    note c = dateLink_closed [OF l, of lineH]
    have p: "pages doc1 = pages doc" by (subst c) simp
    from "1.IH" [OF True l r] show ?thesis
      unfolding n p by (subst (asm) c, subst (asm) c) (simp add: rowLinks_Suc)
  next
    case False
    with "1.prems" show ?thesis
      by (subst (asm) linkCombinedLoop.simps) auto
  qed
qed

lemma generateMonthlyLog_split_result:
  assumes "genNeedsSplit ctx md" and "0 < genMinLineHeight ctx" and "1 \<le> genDaysPerPage ctx"
  shows "generateMonthlyLog ctx md pdfDoc =
     Some (addTexts (objectCount (fst (calResult ctx md 0 (calPlan ctx md 1) pdfDoc [])))
             (genNavTexts ctx MonthlyTasks)
             (snd (addPage (fst (calResult ctx md 0 (calPlan ctx md 1) pdfDoc [])))),
           snd (calResult ctx md 0 (calPlan ctx md 1) pdfDoc []) @
           [\<lparr> label = monthName md @ '' (Tasks)'',
              pageIndex = length (pages (fst (calResult ctx md 0 (calPlan ctx md 1) pdfDoc []))),
              type = MonthlyTasks, date = Some md,
              monthIndex = Some (getMonth md), weekIndex = None,
              yearMonth = Some (formatYearMonth md) \<rparr>])"
  using assms(1)
  by (simp add: generateMonthlyLog_def calendarPagesLoop_plan [OF assms(2,3)] split_def
      case_prod_beta Let_def drawTopNavigation_closed addPage_def getPageCount_def)

lemma rowTexts_mem:
  "i < n \<Longrightarrow>
     \<lparr> dtText = dayText (d0 + int i), dtX = left, dtY = y0 - real i * lineH, dtSize = fsize \<rparr>
       \<in> set (rowTexts left fsize lineH y0 d0 n)"
  by (auto simp: rowTexts_def)

lemma rowLinks_mem:
  "i < n \<Longrightarrow> rowLink pgs registry left fsize year month lineH y0 d0 i = Some a \<Longrightarrow>
     a \<in> set (rowLinks pgs registry left fsize year month lineH y0 d0 n)"
  by (auto simp: rowLinks_def List.map_filter_def intro!: image_eqI [where x = i])

lemma calPlan_cover:
  assumes "1 \<le> genDaysPerPage ctx" "d0 \<le> d" "d \<le> getDaysInMonth md"
  shows "\<exists>j < length (calPlan ctx md d0).
           calPlan ctx md d0 ! j \<le> d
         \<and> d < calPlan ctx md d0 ! j + int (rowsOnPage ctx md (calPlan ctx md d0 ! j))"
  using assms
proof (induction ctx md d0 rule: calPlan.induct)
  case (1 ctx md d0)
  let ?n = "int (rowsOnPage ctx md d0)"
  have c: "d0 \<le> getDaysInMonth md" using "1.prems" by simp
  then have pl: "calPlan ctx md d0 = d0 # calPlan ctx md (d0 + ?n)"
    using "1.prems"(1) by (subst calPlan.simps) simp
  show ?case
  proof (cases "d < d0 + ?n")
    case True
    then show ?thesis using pl "1.prems"(2) by (intro exI [of _ 0]) simp
  next
    case False
    then have "d0 + ?n \<le> d" by simp
    from "1.IH" [OF _ "1.prems"(1) this "1.prems"(3)] c "1.prems"(1)
    obtain j where "j < length (calPlan ctx md (d0 + ?n))"
      "calPlan ctx md (d0 + ?n) ! j \<le> d"
      "d < calPlan ctx md (d0 + ?n) ! j + int (rowsOnPage ctx md (calPlan ctx md (d0 + ?n) ! j))"
      by auto
    then show ?thesis using pl by (intro exI [of _ "Suc j"]) simp
  qed
qed

lemma linkPagesLoop_links:
  assumes "0 < genMinLineHeight ctx" "1 \<le> genDaysPerPage ctx"
    and "linkPagesLoop (ctxDims ctx) registry (ctxDensity ctx) year month (getDaysInMonth md)
           (genDaysPerPage ctx) (genMinLineHeight ctx) (genAvailableHeight ctx) d rs doc
         = Inr doc'"
    and "length rs \<le> length (calPlan ctx md d)"
  shows "extends doc doc'
     \<and> (\<forall>j < length rs.
          set (rowLinks (pages doc) registry (paddingLeft (padding (ctxDims ctx)))
                 (fontSize (ctxDensity ctx)) year month
                 (genAvailableHeight ctx / real (rowsOnPage ctx md (calPlan ctx md d ! j)))
                 (genContentTop ctx) (calPlan ctx md d ! j)
                 (rowsOnPage ctx md (calPlan ctx md d ! j)))
            \<subseteq> set (annots doc' (pages doc ! pageIndex (rs ! j))))"
  using assms(3,4)
proof (induction rs arbitrary: d doc)
  case Nil
  then show ?case by simp
next
  case (Cons r rest)
  let ?N = "getDaysInMonth md"
  let ?n = "rowsOnPage ctx md d"
  from Cons.prems(2) have ne: "calPlan ctx md d \<noteq> []" by auto
  then have dN: "d \<le> ?N" by (subst (asm) calPlan.simps) (auto split: if_splits)
  then have pl: "calPlan ctx md d = d # calPlan ctx md (d + int ?n)"
    using assms(2) by (subst calPlan.simps) simp
  have rn: "min (genDaysPerPage ctx) (?N - d + 1) = int ?n"
    using assms(2) dN by (simp add: rowsOnPage_def)
  have m: "min (int ?n) (?N - d + 1) = int ?n" using rn by linarith
  have s: "max (genMinLineHeight ctx) (genAvailableHeight ctx / real ?n)
             = genAvailableHeight ctx / real ?n"
    using lineHeight_stretch [OF assms(1,2) dN] rn by simp
  have ct: "HEIGHT (ctxDims ctx) - paddingTop (padding (ctxDims ctx)) - 7 - 2 - 7 - 6 - 11 - 8
              = genContentTop ctx"
    by (simp add: genContentTop_def genNavY_def navFontSize_def)
  from Cons.prems(1) obtain doc1 d' where
    inr: "pageIndex r < length (pages doc)"
    and l: "linkRowsLoop (pages doc ! pageIndex r) registry (paddingLeft (padding (ctxDims ctx)))
              (fontSize (ctxDensity ctx)) year month (genAvailableHeight ctx / real ?n)
              (int ?n) ?N 0 d (genContentTop ctx) doc = Inr (doc1, d')"
    and r: "linkPagesLoop (ctxDims ctx) registry (ctxDensity ctx) year month ?N
           (genDaysPerPage ctx) (genMinLineHeight ctx) (genAvailableHeight ctx) d' rest doc1
         = Inr doc'"
    by (simp only: linkPagesLoop.simps Let_def getPage_def rn s ct of_int_of_nat_eq
        split: sum.splits if_splits prod.splits) auto
  from linkRowsLoop_closed [OF l] have
    d1: "doc1 = addAnnots (pages doc ! pageIndex r)
           (rowLinks (pages doc) registry (paddingLeft (padding (ctxDims ctx)))
              (fontSize (ctxDensity ctx)) year month (genAvailableHeight ctx / real ?n)
              (genContentTop ctx) d ?n) doc"
    and d': "d' = d + int ?n"
    by (simp_all add: m)
  have p1: "pages doc1 = pages doc" by (subst d1) simp
  have le: "length rest \<le> length (calPlan ctx md (d + int ?n))"
    using Cons.prems(2) pl by simp
  note IH = Cons.IH [OF r [unfolded d'] le, unfolded p1]
  have e1: "extends doc doc1" by (subst d1) simp
  have e: "extends doc doc'" using extends_trans [OF e1] IH by blast
  have j0: "set (rowLinks (pages doc) registry (paddingLeft (padding (ctxDims ctx)))
                 (fontSize (ctxDensity ctx)) year month (genAvailableHeight ctx / real ?n)
                 (genContentTop ctx) d ?n)
            \<subseteq> set (annots doc' (pages doc ! pageIndex r))"
  proof
    fix a
    assume "a \<in> set (rowLinks (pages doc) registry (paddingLeft (padding (ctxDims ctx)))
                 (fontSize (ctxDensity ctx)) year month (genAvailableHeight ctx / real ?n)
                 (genContentTop ctx) d ?n)"
    then have "a \<in> set (annots doc1 (pages doc ! pageIndex r))" by (subst d1) simp
    then show "a \<in> set (annots doc' (pages doc ! pageIndex r))"
      using IH extends_mem by blast
  qed
  show ?case
  proof (intro conjI allI impI)
    show "extends doc doc'" by (rule e)
  next
    fix j
    assume "j < length (r # rest)"
    then show "set (rowLinks (pages doc) registry (paddingLeft (padding (ctxDims ctx)))
                 (fontSize (ctxDensity ctx)) year month
                 (genAvailableHeight ctx / real (rowsOnPage ctx md (calPlan ctx md d ! j)))
                 (genContentTop ctx) (calPlan ctx md d ! j)
                 (rowsOnPage ctx md (calPlan ctx md d ! j)))
            \<subseteq> set (annots doc' (pages doc ! pageIndex ((r # rest) ! j)))"
      using j0 IH by (cases j) (simp_all add: pl)
  qed
qed

lemma generateMonthlyLog_single_result:
  assumes "\<not> genNeedsSplit ctx md"
  shows "generateMonthlyLog ctx md pdfDoc =
     Some (addTexts (objectCount pdfDoc)
             (genNavTexts ctx Monthly @
              rowTexts (paddingLeft (padding (ctxDims ctx))) (fontSize (ctxDensity ctx))
                (lineHeight (ctxDensity ctx)) (genContentTop ctx) 1 (nat (getDaysInMonth md)))
             (snd (addPage pdfDoc)),
           [\<lparr> label = monthName md, pageIndex = length (pages pdfDoc), type = Monthly,
              date = Some md, monthIndex = Some (getMonth md),
              weekIndex = None, yearMonth = Some (formatYearMonth md) \<rparr>,
            \<lparr> label = monthName md @ '' (Tasks)'', pageIndex = length (pages pdfDoc),
              type = MonthlyTasks, date = Some md,
              monthIndex = Some (getMonth md), weekIndex = None,
              yearMonth = Some (formatYearMonth md) \<rparr>])"
proof -
  let ?N = "getDaysInMonth md"
  let ?R = "lineHeight (ctxDensity ctx)" and ?H = "genAvailableHeight ctx"
  have N: "28 \<le> ?N" by (rule getDaysInMonth_ge)
  then have Npos: "0 < real_of_int ?N" by simp
  have le: "real_of_int ?N * ?R \<le> ?H" using assms by (simp add: genNeedsSplit_def)
  have ct: "genContentTop ctx - paddingBottom (padding (ctxDims ctx)) - 10 = ?H + 4"
    by (simp add: genContentTop_def genNavY_def genAvailableHeight_def navFontSize_def)
  have "?R \<le> (?H + 4) / real_of_int ?N"
    using le Npos by (simp add: pos_le_divide_eq mult.commute)
  then have mn: "min ?R ((genContentTop ctx - paddingBottom (padding (ctxDims ctx)) - 10)
                          / real_of_int ?N) = ?R"
    unfolding ct by simp
  have ct2: "genNavY ctx - navFontSize - 6 - 11 - 8 = genContentTop ctx"
    by (simp add: genContentTop_def)
  show ?thesis
    using assms
    apply (simp only: generateMonthlyLog_def if_False Let_def split_def addPage_def fst_conv
        snd_conv getPageCount_def drawTopNavigation_closed drawPageTitle_def ct2 mn
        combinedRowsLoop_closed case_prod_beta)
    apply simp
    done
qed

lemma lastDayOfMonth_date:
  "100 \<le> getFullYear md \<Longrightarrow> getMonth md < 12 \<Longrightarrow>
     lastDayOfMonth (getFullYear md) (int (getMonth md)) = getDaysInMonth md"
  by (simp add: lastDayOfMonth_def getDaysInMonth_def Let_def)

lemma monthDateLinks_parsed:
  assumes "100 \<le> getFullYear md" "getMonth md < 12"
  shows "monthDateLinks (ctxDims ctx) registry (ctxDensity ctx) (formatYearMonth md, rs) dx =
     (if length rs > 1
         \<or> real_of_int (getDaysInMonth md) * lineHeight (ctxDensity ctx) > genAvailableHeight ctx
      then linkPagesLoop (ctxDims ctx) registry (ctxDensity ctx) (getFullYear md)
             (int (getMonth md)) (getDaysInMonth md) (genDaysPerPage ctx)
             (genMinLineHeight ctx) (genAvailableHeight ctx) 1 rs dx
      else
        (case getPage dx (pageIndex (hd rs)) of
           Inl e \<Rightarrow> Inl e
         | Inr page \<Rightarrow>
             linkCombinedLoop page registry (paddingLeft (padding (ctxDims ctx)))
               (fontSize (ctxDensity ctx)) (getFullYear md) (int (getMonth md))
               (min (lineHeight (ctxDensity ctx))
                  ((genContentTop ctx - paddingBottom (padding (ctxDims ctx)) - 10)
                     / real_of_int (getDaysInMonth md)))
               (getDaysInMonth md) 1 (genContentTop ctx) dx))"
proof -
  have y: "0 \<le> getFullYear md" using assms(1) by simp
  have p0: "parseInt (numberToString (getFullYear md)) = Some (getFullYear md)"
    using parseInt_numberToString [OF y] .
  have p1: "parseInt (padStart 2 CHR ''0'' (numberToString (int (getMonth md + 1))))
              = Some (int (getMonth md + 1))"
    by (rule parseInt_padStart) simp
  have ct: "HEIGHT (ctxDims ctx) - paddingTop (padding (ctxDims ctx)) - 7 - 2 - 7 - 6 - 11 - 8
              = genContentTop ctx"
    by (simp add: genContentTop_def genNavY_def navFontSize_def)
  have m: "int (getMonth md + 1) - 1 = int (getMonth md)" by simp
  have p1': "parseInt (padStart 2 CHR ''0'' (numberToString (1 + int (getMonth md))))
              = Some (1 + int (getMonth md))"
    using p1 by (simp add: add.commute)
  show ?thesis
    unfolding monthDateLinks_def
    apply (simp only: Let_def fst_conv snd_conv split_formatYearMonth [OF y] nth_Cons_0
        nth_Cons_Suc One_nat_def list.size p0 prod.case option.case ct
        genMinLineHeight_def [symmetric] genAvailableHeight_def [symmetric]
        genDaysPerPage_def [symmetric])
    apply (simp add: p1' lastDayOfMonth_date [OF assms] split: sum.splits)
    done
qed

lemma linkPagesLoop_extends:
  "linkPagesLoop dims registry density year month dimo dpp mlh avail d rs doc = Inr doc'
   \<Longrightarrow> extends doc doc'"
proof (induction rs arbitrary: d doc)
  case Nil
  then show ?case by simp
next
  case (Cons r rest)
  from Cons.prems obtain page lineH dotp y doc1 d' where
    l: "linkRowsLoop page registry (paddingLeft (padding dims)) (fontSize density) year month
          lineH dotp dimo 0 d y doc = Inr (doc1, d')"
    and r: "linkPagesLoop dims registry density year month dimo dpp mlh avail d' rest doc1
              = Inr doc'"
    by (auto simp: Let_def split: sum.splits)
  have "extends doc doc1" using linkRowsLoop_closed [OF l] by simp
  then show ?case using Cons.IH [OF r] extends_trans by blast
qed

lemma fetchPages_same: "fetchPages doc rs = Inr doc' \<Longrightarrow> doc' = doc"
  by (induction rs) (auto split: sum.splits)

lemma monthDateLinks_extends:
  assumes "monthDateLinks dims registry density entry doc = Inr doc'"
  shows "extends doc doc'"
proof -
  let ?parts = "split (fst entry) CHR ''-''"
  let ?year = "parseInt (?parts ! 0)"
  let ?mp = "(if 1 < length ?parts then parseInt (?parts ! 1) else None)"
  have f: "fetchPages doc rs = Inr doc' \<Longrightarrow> extends doc doc'" for rs
    using fetchPages_same by fastforce
  show ?thesis
  proof (cases ?year)
    case None
    with assms have "fetchPages doc (snd entry) = Inr doc' \<or> fetchPages doc [hd (snd entry)] = Inr doc'"
      unfolding monthDateLinks_def Let_def by (simp split: if_splits)
    then show ?thesis using f by blast
  next
    case (Some year)
    note y = this
    show ?thesis
    proof (cases ?mp)
      case None
      with assms y have "fetchPages doc (snd entry) = Inr doc' \<or> fetchPages doc [hd (snd entry)] = Inr doc'"
        unfolding monthDateLinks_def Let_def by (simp split: if_splits)
      then show ?thesis using f by blast
    next
      case (Some mp1)
      with assms y have
        "(\<exists>dimo dpp mlh avail. linkPagesLoop dims registry density year (mp1 - 1) dimo dpp mlh avail 1
             (snd entry) doc = Inr doc')
         \<or> (\<exists>page lineH dimo y0. linkCombinedLoop page registry (paddingLeft (padding dims))
                (fontSize density) year (mp1 - 1) lineH dimo 1 y0 doc = Inr doc')"
        unfolding monthDateLinks_def Let_def
        by (simp split: if_splits sum.splits) blast+
      then show ?thesis
      proof
        assume "\<exists>dimo dpp mlh avail. linkPagesLoop dims registry density year (mp1 - 1) dimo dpp mlh avail 1
             (snd entry) doc = Inr doc'"
        then show ?thesis using linkPagesLoop_extends by blast
      next
        assume "\<exists>page lineH dimo y0. linkCombinedLoop page registry (paddingLeft (padding dims))
                (fontSize density) year (mp1 - 1) lineH dimo 1 y0 doc = Inr doc'"
        then obtain page lineH dimo y0 where
          "linkCombinedLoop page registry (paddingLeft (padding dims))
                (fontSize density) year (mp1 - 1) lineH dimo 1 y0 doc = Inr doc'" by blast
        from linkCombinedLoop_closed [OF this] show ?thesis by simp
      qed
    qed
  qed
qed

lemma monthsLoop_entry:
  "monthsLoop dims registry density groups doc = Inr doc' \<Longrightarrow> e \<in> set groups \<Longrightarrow>
     \<exists>dx dy. extends doc dx \<and> monthDateLinks dims registry density e dx = Inr dy
             \<and> extends dy doc'"
proof (induction groups arbitrary: doc)
  case Nil
  then show ?case by simp
next
  case (Cons g rest)
  from Cons.prems(1) obtain doc1 where
    m: "monthDateLinks dims registry density g doc = Inr doc1"
    and r: "monthsLoop dims registry density rest doc1 = Inr doc'"
    by (auto split: sum.splits)
  have e1: "extends doc doc1" using monthDateLinks_extends [OF m] .
  show ?case
  proof (cases "e = g")
    case True
    have "extends doc1 doc'"
      using r
    proof (induction rest arbitrary: doc1)
      case Nil
      then show ?case by simp
    next
      case (Cons h hs)
      then show ?case
        by (auto split: sum.splits dest: monthDateLinks_extends intro: extends_trans)
    qed
    then show ?thesis using m True by (intro exI [of _ doc] exI [of _ doc1]) simp
  next
    case False
    then have "e \<in> set rest" using Cons.prems(2) by simp
    from Cons.IH [OF r this] obtain dx dy where
      "extends doc1 dx" "monthDateLinks dims registry density e dx = Inr dy" "extends dy doc'"
      by blast
    then show ?thesis using extends_trans [OF e1] by blast
  qed
qed

lemma groupMonthly_map_of:
  "map_of (groupMonthly refs m) ym =
     (if \<exists>r \<in> set refs. truthy (yearMonth r) \<and> the (yearMonth r) = ym
      then Some ((case map_of m ym of Some ps \<Rightarrow> ps | None \<Rightarrow> [])
                 @ filter (\<lambda>r. truthy (yearMonth r) \<and> the (yearMonth r) = ym) refs)
      else map_of m ym)"
proof (induction refs arbitrary: m)
  case Nil
  then show ?case by simp
next
  case (Cons r refs)
  show ?case
    by (auto simp: Cons.IH Let_def update_conv' split: option.splits)
qed

lemma pushByType_dailyPages: "dailyPages (pushByType r registry) = dailyPages registry"
  by (simp add: pushByType_def split: option.splits)

lemma registerByKey_dailyPages:
  "dailyPages (registerByKey r registry) =
     (if type r = Daily \<and> date r \<noteq> None
      then AList.update (formatDateKey (the (date r))) (pageIndex r) (dailyPages registry)
      else dailyPages registry)"
  by (cases "type r") (simp_all add: registerByKey_def split: option.splits)

lemma registerRef_daily:
  "map_of (dailyPages (registerRef registry r)) k =
     (if type r = Daily \<and> date r \<noteq> None \<and> formatDateKey (the (date r)) = k
      then Some (pageIndex r) else map_of (dailyPages registry) k)"
  by (auto simp: registerRef_def registerByKey_dailyPages pushByType_dailyPages update_conv')

lemma buildPageRegistry_daily_aux:
  assumes "\<forall>r \<in> set refs. type r = Daily \<and> date r \<noteq> None \<and> formatDateKey (the (date r)) = k
             \<longrightarrow> pageIndex r = v"
    and "map_of (dailyPages registry) k = Some v
         \<or> (\<exists>r \<in> set refs. type r = Daily \<and> date r \<noteq> None \<and> formatDateKey (the (date r)) = k)"
  shows "map_of (dailyPages (foldl registerRef registry refs)) k = Some v"
  using assms
proof (induction refs arbitrary: registry)
  case Nil
  then show ?case by simp
next
  case (Cons r refs)
  let ?m = "type r = Daily \<and> date r \<noteq> None \<and> formatDateKey (the (date r)) = k"
  have a: "\<forall>r \<in> set refs. type r = Daily \<and> date r \<noteq> None
                   \<and> formatDateKey (the (date r)) = k \<longrightarrow> pageIndex r = v"
    using Cons.prems(1) by simp
  have b: "map_of (dailyPages (registerRef registry r)) k = Some v
         \<or> (\<exists>r \<in> set refs. type r = Daily \<and> date r \<noteq> None \<and> formatDateKey (the (date r)) = k)"
  proof (cases ?m)
    case True
    then have "pageIndex r = v" using Cons.prems(1) by simp
    then show ?thesis using True by (simp add: registerRef_daily)
  next
    case False
    then have "map_of (dailyPages (registerRef registry r)) k = map_of (dailyPages registry) k"
      by (simp only: registerRef_daily if_False)
    moreover from Cons.prems(2) False have "map_of (dailyPages registry) k = Some v
         \<or> (\<exists>r \<in> set refs. type r = Daily \<and> date r \<noteq> None \<and> formatDateKey (the (date r)) = k)"
      by (metis set_ConsD)
    ultimately show ?thesis by simp
  qed
  have "map_of (dailyPages (foldl registerRef (registerRef registry r) refs)) k = Some v"
    using a b by (rule Cons.IH)
  then show ?case by simp
qed

lemma buildPageRegistry_daily:
  assumes "dref \<in> set refs" "type dref = Daily" "date dref = Some dt"
    and "\<forall>r \<in> set refs. type r = Daily \<and> date r \<noteq> None
           \<and> formatDateKey (the (date r)) = formatDateKey dt \<longrightarrow> pageIndex r = pageIndex dref"
  shows "map_of (dailyPages (buildPageRegistry refs i)) (formatDateKey dt) = Some (pageIndex dref)"
proof -
  have "\<exists>r \<in> set refs. type r = Daily \<and> date r \<noteq> None
          \<and> formatDateKey (the (date r)) = formatDateKey dt"
    using assms(1-3) by (intro bexI [of _ dref]) simp_all
  then show ?thesis
    unfolding buildPageRegistry_def
    using assms(4) by (intro buildPageRegistry_daily_aux) blast+
qed

lemma shiftPageRefs_simps [simp]:
  "shiftPageRefs M [] = []"
  "shiftPageRefs M (r # rs) = r\<lparr> pageIndex := pageIndex r + M \<rparr> # shiftPageRefs M rs"
  "shiftPageRefs M (rs @ ts) = shiftPageRefs M rs @ shiftPageRefs M ts"
  "length (shiftPageRefs M rs) = length rs"
  by (simp_all add: shiftPageRefs_def)

lemma shiftPageRefs_nth:
  "j < length rs \<Longrightarrow> shiftPageRefs M rs ! j = (rs ! j)\<lparr> pageIndex := pageIndex (rs ! j) + M \<rparr>"
  by (simp add: shiftPageRefs_def)

lemma filter_shift_calRefs:
  "filter (\<lambda>r. type r = Monthly)
     (shiftPageRefs M (map (\<lambda>j. calRef ctx md (f j) (g j)) xs))
   = shiftPageRefs M (map (\<lambda>j. calRef ctx md (f j) (g j)) xs)"
  by (simp add: shiftPageRefs_def calRef_def filter_map comp_def)

lemma date_links_split:
  assumes ns: "genNeedsSplit ctx md"
    and rmin: "0 < genMinLineHeight ctx" and dpp: "1 \<le> genDaysPerPage ctx"
    and yr: "100 \<le> getFullYear md" and mo: "getMonth md < 12"
    and gen: "generateMonthlyLog ctx md pdfDoc = Some (docG, refs)"
    and pos: "\<forall>r \<in> set refs. pageIndex r + M < length (pages docF)
                \<and> pages docF ! (pageIndex r + M) = pages docG ! pageIndex r"
    and dx: "pages dx = pages docF"
    and ml: "monthDateLinks (ctxDims ctx) registry (ctxDensity ctx)
               (formatYearMonth md, filter (\<lambda>r. type r = Monthly) (shiftPageRefs M refs)) dx
             = Inr dy"
    and k0: "map_of (dailyPages registry) (dateKeyOf (getFullYear md) (int (getMonth md)) d)
               = Some p"
    and day: "1 \<le> d" "d \<le> getDaysInMonth md"
  shows "\<exists>r \<in> set refs. \<exists>y. type r = Monthly
      \<and> \<lparr> dtText = dayText d, dtX = paddingLeft (padding (ctxDims ctx)), dtY = y,
           dtSize = fontSize (ctxDensity ctx) \<rparr> \<in> set (texts docG (pages docG ! pageIndex r))
      \<and> linkAnnotation
           \<lparr> rectX = paddingLeft (padding (ctxDims ctx)) - 2, rectY = y - 2, rectWidth = 28,
             rectHeight = fontSize (ctxDensity ctx) + 4 \<rparr> (pages docF ! p)
          \<in> set (annots dy (pages docG ! pageIndex r))"
proof -
  let ?N = "getDaysInMonth md" and ?plan = "calPlan ctx md 1"
  let ?k = "length ?plan"
  let ?R = "calResult ctx md 0 ?plan pdfDoc []"
  let ?cal = "map (\<lambda>j. calRef ctx md j (length (pages pdfDoc) + j)) [0..<?k]"
  let ?left = "paddingLeft (padding (ctxDims ctx))" and ?fs = "fontSize (ctxDensity ctx)"
  note g = generateMonthlyLog_split_result [OF ns rmin dpp, of pdfDoc]
  have sr: "snd ?R = ?cal" by (simp add: calResult_refs)
  from gen g have docG: "docG = addTexts (objectCount (fst ?R)) (genNavTexts ctx MonthlyTasks)
                                  (snd (addPage (fst ?R)))"
    and refs: "refs = ?cal @ [\<lparr> label = monthName md @ '' (Tasks)'',
              pageIndex = length (pages (fst ?R)),
              type = MonthlyTasks, date = Some md,
              monthIndex = Some (getMonth md), weekIndex = None,
              yearMonth = Some (formatYearMonth md) \<rparr>]"
    by (simp_all add: sr)
  have mp: "filter (\<lambda>r. type r = Monthly) (shiftPageRefs M refs) = shiftPageRefs M ?cal"
    unfolding refs by (simp add: filter_shift_calRefs)
  have kN: "int ?k = \<lceil>real_of_int ?N / real_of_int (genDaysPerPage ctx)\<rceil>"
    using calPlan_length [OF dpp, of 1 md] getDaysInMonth_ge [of md] by simp
  have isSplit: "length (shiftPageRefs M ?cal) > 1
      \<or> real_of_int ?N * lineHeight (ctxDensity ctx) > genAvailableHeight ctx"
  proof (cases "genCalendarPagesGt1 ctx md")
    case True
    then have "1 < int ?k" using dpp kN by (simp add: genCalendarPagesGt1_def)
    then show ?thesis by simp
  next
    case False
    then show ?thesis using ns by (simp add: genNeedsSplit_def)
  qed
  from ml have lp: "linkPagesLoop (ctxDims ctx) registry (ctxDensity ctx) (getFullYear md)
             (int (getMonth md)) ?N (genDaysPerPage ctx)
             (genMinLineHeight ctx) (genAvailableHeight ctx) 1 (shiftPageRefs M ?cal) dx = Inr dy"
    unfolding mp monthDateLinks_parsed [OF yr mo] using isSplit by simp
  have len: "length (shiftPageRefs M ?cal) \<le> length ?plan" by simp
  note L = linkPagesLoop_links [OF rmin dpp lp len]
  from calPlan_cover [OF dpp day] obtain j where
    j: "j < ?k" and lo: "?plan ! j \<le> d"
    and hi: "d < ?plan ! j + int (rowsOnPage ctx md (?plan ! j))"
    by blast
  let ?dj = "?plan ! j" and ?n = "rowsOnPage ctx md (?plan ! j)"
  let ?i = "nat (d - ?dj)"
  let ?lineH = "genAvailableHeight ctx / real ?n"
  let ?y = "genContentTop ctx - real ?i * ?lineH"
  let ?r = "refs ! j"
  have i: "?i < ?n" "?dj + int ?i = d" using lo hi by simp_all
  have rj: "?r = calRef ctx md j (length (pages pdfDoc) + j)"
    using j by (simp add: refs nth_append)
  have "j < length refs" using j by (simp add: refs)
  then have rin: "?r \<in> set refs" by (rule nth_mem)
  have ty: "type ?r = Monthly" by (simp add: rj calRef_def)
  have pgG: "pages docG ! pageIndex ?r = objectCount pdfDoc + j"
    using j by (simp add: docG rj calRef_def calResult_pages addPage_def nth_append)
  have tx: "texts docG (objectCount pdfDoc + j)
              = texts pdfDoc (objectCount pdfDoc + j) @ calPageTexts ctx md ?dj"
    using j by (simp add: docG calResult_texts calResult_pages addPage_def)
  have "\<lparr> dtText = dayText (?dj + int ?i), dtX = ?left, dtY = ?y, dtSize = ?fs \<rparr>
          \<in> set (rowTexts ?left ?fs ?lineH (genContentTop ctx) ?dj ?n)"
    using rowTexts_mem [OF i(1)] .
  then have tdrawn: "\<lparr> dtText = dayText d, dtX = ?left, dtY = ?y, dtSize = ?fs \<rparr>
          \<in> set (texts docG (pages docG ! pageIndex ?r))"
    unfolding pgG tx calPageTexts_def i(2) by simp
  have sj: "pageIndex (shiftPageRefs M ?cal ! j) = pageIndex ?r + M"
    using j by (simp add: shiftPageRefs_nth rj)
  have pgF: "pages dx ! pageIndex (shiftPageRefs M ?cal ! j) = pages docG ! pageIndex ?r"
    using pos rin by (simp add: sj dx)
  have "rowLink (pages dx) registry ?left ?fs (getFullYear md) (int (getMonth md)) ?lineH
          (genContentTop ctx) ?dj ?i
        = Some (linkAnnotation \<lparr> rectX = ?left - 2, rectY = ?y - 2, rectWidth = 28,
                   rectHeight = ?fs + 4 \<rparr> (pages docF ! p))"
    unfolding rowLink_def i(2) k0 dx by simp
  from rowLinks_mem [OF i(1) this] L j
  have link: "linkAnnotation \<lparr> rectX = ?left - 2, rectY = ?y - 2, rectWidth = 28,
                   rectHeight = ?fs + 4 \<rparr> (pages docF ! p)
          \<in> set (annots dy (pages docG ! pageIndex ?r))"
    unfolding pgF [symmetric] by auto
  from rin ty tdrawn link show ?thesis by blast
qed

lemma date_links_single:
  assumes ns: "\<not> genNeedsSplit ctx md"
    and yr: "100 \<le> getFullYear md" and mo: "getMonth md < 12"
    and gen: "generateMonthlyLog ctx md pdfDoc = Some (docG, refs)"
    and pos: "\<forall>r \<in> set refs. pageIndex r + M < length (pages docF)
                \<and> pages docF ! (pageIndex r + M) = pages docG ! pageIndex r"
    and dx: "pages dx = pages docF"
    and ml: "monthDateLinks (ctxDims ctx) registry (ctxDensity ctx)
               (formatYearMonth md, filter (\<lambda>r. type r = Monthly) (shiftPageRefs M refs)) dx
             = Inr dy"
    and k0: "map_of (dailyPages registry) (dateKeyOf (getFullYear md) (int (getMonth md)) d)
               = Some p"
    and day: "1 \<le> d" "d \<le> getDaysInMonth md"
  shows "\<exists>r \<in> set refs. \<exists>y. type r = Monthly
      \<and> \<lparr> dtText = dayText d, dtX = paddingLeft (padding (ctxDims ctx)), dtY = y,
           dtSize = fontSize (ctxDensity ctx) \<rparr> \<in> set (texts docG (pages docG ! pageIndex r))
      \<and> linkAnnotation
           \<lparr> rectX = paddingLeft (padding (ctxDims ctx)) - 2, rectY = y - 2, rectWidth = 28,
             rectHeight = fontSize (ctxDensity ctx) + 4 \<rparr> (pages docF ! p)
          \<in> set (annots dy (pages docG ! pageIndex r))"
proof -
  let ?N = "getDaysInMonth md"
  let ?left = "paddingLeft (padding (ctxDims ctx))" and ?fs = "fontSize (ctxDensity ctx)"
  let ?R = "lineHeight (ctxDensity ctx)" and ?H = "genAvailableHeight ctx"
  let ?r1 = "\<lparr> label = monthName md, pageIndex = length (pages pdfDoc), type = Monthly,
              date = Some md, monthIndex = Some (getMonth md),
              weekIndex = None, yearMonth = Some (formatYearMonth md) \<rparr>"
  let ?r2 = "\<lparr> label = monthName md @ '' (Tasks)'', pageIndex = length (pages pdfDoc),
              type = MonthlyTasks, date = Some md,
              monthIndex = Some (getMonth md), weekIndex = None,
              yearMonth = Some (formatYearMonth md) \<rparr>"
  note g = generateMonthlyLog_single_result [OF ns, of pdfDoc]
  from gen g have docG: "docG = addTexts (objectCount pdfDoc)
             (genNavTexts ctx Monthly @
              rowTexts ?left ?fs ?R (genContentTop ctx) 1 (nat ?N)) (snd (addPage pdfDoc))"
    and refs: "refs = [?r1, ?r2]"
    by simp_all
  have mp: "filter (\<lambda>r. type r = Monthly) (shiftPageRefs M refs)
              = [?r1\<lparr> pageIndex := length (pages pdfDoc) + M \<rparr>]"
    unfolding refs by simp
  have le: "real_of_int ?N * ?R \<le> ?H" using ns by (simp add: genNeedsSplit_def)
  have N: "28 \<le> ?N" by (rule getDaysInMonth_ge)
  then have Npos: "0 < real_of_int ?N" by simp
  have ct: "genContentTop ctx - paddingBottom (padding (ctxDims ctx)) - 10 = ?H + 4"
    by (simp add: genContentTop_def genNavY_def genAvailableHeight_def navFontSize_def)
  have "?R \<le> (?H + 4) / real_of_int ?N"
    using le Npos by (simp add: pos_le_divide_eq mult.commute)
  then have mn: "min ?R ((genContentTop ctx - paddingBottom (padding (ctxDims ctx)) - 10)
                          / real_of_int ?N) = ?R"
    unfolding ct by simp
  have r1in: "?r1 \<in> set refs" by (simp add: refs)
  have pgG: "pages docG ! pageIndex ?r1 = objectCount pdfDoc"
    by (simp add: docG addPage_def)
  from pos r1in have "pageIndex ?r1 + M < length (pages docF)
       \<and> pages docF ! (pageIndex ?r1 + M) = pages docG ! pageIndex ?r1"
    by (rule bspec)
  then have inr: "length (pages pdfDoc) + M < length (pages dx)"
    and pgF: "pages dx ! (length (pages pdfDoc) + M) = objectCount pdfDoc"
    using pgG by (simp_all add: dx)
  from ml have "linkCombinedLoop (objectCount pdfDoc) registry ?left ?fs (getFullYear md)
                  (int (getMonth md)) ?R ?N 1 (genContentTop ctx) dx = Inr dy"
    unfolding mp monthDateLinks_parsed [OF yr mo] mn using le inr pgF
    by (simp add: getPage_def)
  from linkCombinedLoop_closed [OF this]
  have dy: "dy = addAnnots (objectCount pdfDoc)
              (rowLinks (pages dx) registry ?left ?fs (getFullYear md) (int (getMonth md)) ?R
                 (genContentTop ctx) 1 (nat ?N)) dx"
    by simp
  let ?i = "nat (d - 1)"
  let ?y = "genContentTop ctx - real ?i * ?R"
  have i: "?i < nat ?N" "1 + int ?i = d" using day by simp_all
  have "\<lparr> dtText = dayText (1 + int ?i), dtX = ?left, dtY = ?y, dtSize = ?fs \<rparr>
          \<in> set (rowTexts ?left ?fs ?R (genContentTop ctx) 1 (nat ?N))"
    using rowTexts_mem [OF i(1)] .
  then have tdrawn: "\<lparr> dtText = dayText d, dtX = ?left, dtY = ?y, dtSize = ?fs \<rparr>
          \<in> set (texts docG (pages docG ! pageIndex ?r1))"
    unfolding pgG i(2) by (simp add: docG addPage_def)
  have "rowLink (pages dx) registry ?left ?fs (getFullYear md) (int (getMonth md)) ?R
          (genContentTop ctx) 1 ?i
        = Some (linkAnnotation \<lparr> rectX = ?left - 2, rectY = ?y - 2, rectWidth = 28,
                   rectHeight = ?fs + 4 \<rparr> (pages docF ! p))"
    unfolding rowLink_def i(2) k0 dx by simp
  from rowLinks_mem [OF i(1) this]
  have link: "linkAnnotation \<lparr> rectX = ?left - 2, rectY = ?y - 2, rectWidth = 28,
                   rectHeight = ?fs + 4 \<rparr> (pages docF ! p)
          \<in> set (annots dy (pages docG ! pageIndex ?r1))"
    unfolding pgG by (subst dy) simp
  have ty: "type ?r1 = Monthly" by simp
  from r1in ty tdrawn link show ?thesis by blast
qed

lemma monthly_refs_nonempty:
  assumes "0 < genMinLineHeight ctx" "1 \<le> genDaysPerPage ctx"
    and "generateMonthlyLog ctx md pdfDoc = Some (docG, refs)"
  shows "filter (\<lambda>r. type r = Monthly) (shiftPageRefs M refs) \<noteq> []"
proof (cases "genNeedsSplit ctx md")
  case True
  have "1 \<le> getDaysInMonth md" using getDaysInMonth_ge [of md] by simp
  then have "calPlan ctx md 1 \<noteq> []" using assms(2) by (subst calPlan.simps) simp
  then obtain d ds where pl: "calPlan ctx md 1 = d # ds" by (cases "calPlan ctx md 1") auto
  show ?thesis
    using assms(3)
    by (auto simp add: generateMonthlyLog_split_result [OF True assms(1,2)] calResult_refs pl
        calRef_def map_upt_Suc_shift simp del: upt_Suc calResult.simps)
next
  case False
  then show ?thesis using assms(3) by (simp add: generateMonthlyLog_single_result) auto
qed

lemma date_links_month:
  assumes rmin: "0 < genMinLineHeight ctx" and dpp: "1 \<le> genDaysPerPage ctx"
    and yr: "100 \<le> getFullYear md" and mo: "getMonth md < 12"
    and gen: "generateMonthlyLog ctx md pdfDoc = Some (docG, refs)"
    and pos: "\<forall>r \<in> set refs. pageIndex r + M < length (pages docF)
                \<and> pages docF ! (pageIndex r + M) = pages docG ! pageIndex r"
    and dx: "pages dx = pages docF"
    and ml: "monthDateLinks (ctxDims ctx) registry (ctxDensity ctx)
               (formatYearMonth md, filter (\<lambda>r. type r = Monthly) (shiftPageRefs M refs)) dx
             = Inr dy"
    and k0: "map_of (dailyPages registry) (dateKeyOf (getFullYear md) (int (getMonth md)) d)
               = Some p"
    and day: "1 \<le> d" "d \<le> getDaysInMonth md"
  shows "\<exists>r \<in> set refs. \<exists>y. type r = Monthly
      \<and> \<lparr> dtText = dayText d, dtX = paddingLeft (padding (ctxDims ctx)), dtY = y,
           dtSize = fontSize (ctxDensity ctx) \<rparr> \<in> set (texts docG (pages docG ! pageIndex r))
      \<and> linkAnnotation
           \<lparr> rectX = paddingLeft (padding (ctxDims ctx)) - 2, rectY = y - 2, rectWidth = 28,
             rectHeight = fontSize (ctxDensity ctx) + 4 \<rparr> (pages docF ! p)
          \<in> set (annots dy (pages docG ! pageIndex r))"
proof (cases "genNeedsSplit ctx md")
  case True
  show ?thesis by (rule date_links_split [OF True rmin dpp yr mo gen pos dx ml k0 day])
next
  case False
  show ?thesis by (rule date_links_single [OF False yr mo gen pos dx ml k0 day])
qed

lemma date_links_returned:
  assumes gen: "generateMonthlyLog ctx md pdfDoc = Some (docG, refs)"
    and rmin: "0 < genMinLineHeight ctx"
    and rH: "genMinLineHeight ctx \<le> genAvailableHeight ctx"
    and yr: "100 \<le> getFullYear md" and mo: "getMonth md < 12"
    and pos: "\<forall>r \<in> set refs. pageIndex r + M < length (pages docF)
                \<and> pages docF ! (pageIndex r + M) = pages docG ! pageIndex r"
    and allr: "filter (\<lambda>r. type r = Monthly \<and> yearMonth r = Some (formatYearMonth md)) allRefs
               = filter (\<lambda>r. type r = Monthly) (shiftPageRefs M refs)"
    and dref: "dref \<in> set allRefs" "type dref = Daily"
      "date dref = Some \<lparr> getFullYear = getFullYear md, getMonth = getMonth md, getDate = d \<rparr>"
    and uniq: "\<forall>r \<in> set allRefs. type r = Daily \<and> date r \<noteq> None
                 \<and> formatDateKey (the (date r)) = formatDateKey (the (date dref))
                 \<longrightarrow> pageIndex r = pageIndex dref"
    and day: "1 \<le> d" "int d \<le> getDaysInMonth md"
    and links: "addMonthlyDateLinks docF (ctxDims ctx) allRefs
                  (buildPageRegistry allRefs tocPageIndex) (ctxDensity ctx) = Inr docL"
  shows "\<exists>r \<in> set refs. \<exists>y. type r = Monthly
      \<and> \<lparr> dtText = dayText (int d), dtX = paddingLeft (padding (ctxDims ctx)), dtY = y,
           dtSize = fontSize (ctxDensity ctx) \<rparr> \<in> set (texts docG (pages docG ! pageIndex r))
      \<and> linkAnnotation
           \<lparr> rectX = paddingLeft (padding (ctxDims ctx)) - 2, rectY = y - 2, rectWidth = 28,
             rectHeight = fontSize (ctxDensity ctx) + 4 \<rparr> (pages docF ! pageIndex dref)
          \<in> set (annots docL (pages docG ! pageIndex r))"
proof -
  let ?ym = "formatYearMonth md"
  let ?mp = "filter (\<lambda>r. type r = Monthly) (shiftPageRefs M refs)"
  let ?mrefs = "filter (\<lambda>r. type r = Monthly) allRefs"
  let ?reg = "buildPageRegistry allRefs tocPageIndex"
  let ?dt = "\<lparr> getFullYear = getFullYear md, getMonth = getMonth md, getDate = d \<rparr>"
  have dpp: "1 \<le> genDaysPerPage ctx" using daysPerPage_ge1 [OF rmin rH] .
  have ne: "?mp \<noteq> []" using monthly_refs_nonempty [OF rmin dpp gen] .
  have u: "\<forall>r \<in> set allRefs. type r = Daily \<and> date r \<noteq> None
             \<and> formatDateKey (the (date r)) = formatDateKey ?dt \<longrightarrow> pageIndex r = pageIndex dref"
    using uniq dref(3) by simp
  have "map_of (dailyPages ?reg) (formatDateKey ?dt) = Some (pageIndex dref)"
    using buildPageRegistry_daily [OF dref u] .
  moreover have "dateKeyOf (getFullYear md) (int (getMonth md)) (int d) = formatDateKey ?dt"
    using dateKeyOf_formatDateKey [of ?dt] by simp
  ultimately have k0: "map_of (dailyPages ?reg)
      (dateKeyOf (getFullYear md) (int (getMonth md)) (int d)) = Some (pageIndex dref)"
    by simp
  have ymne: "?ym \<noteq> []" by (rule formatYearMonth_nonempty)
  have eqv: "(truthy (yearMonth r) \<and> the (yearMonth r) = ?ym) = (yearMonth r = Some ?ym)" for r
    using ymne by (cases "yearMonth r") (auto simp: truthy_def)
  have f: "filter (\<lambda>r. truthy (yearMonth r) \<and> the (yearMonth r) = ?ym) ?mrefs = ?mp"
    unfolding eqv allr [symmetric] by (simp add: conj_commute)
  then have ex: "\<exists>r \<in> set ?mrefs. truthy (yearMonth r) \<and> the (yearMonth r) = ?ym"
    using ne by (metis (mono_tags, lifting) filter_False)
  have grp: "map_of (groupMonthly ?mrefs []) ?ym = Some ?mp"
    using ex f by (simp add: groupMonthly_map_of)
  then have ent: "(?ym, ?mp) \<in> set (groupMonthly ?mrefs [])" by (rule map_of_SomeD)
  have mne: "?mrefs \<noteq> []" using ex by (auto simp: filter_empty_conv)
  from links mne have ml: "monthsLoop (ctxDims ctx) ?reg (ctxDensity ctx)
                             (groupMonthly ?mrefs []) docF = Inr docL"
    by (simp add: addMonthlyDateLinks_def Let_def)
  from monthsLoop_entry [OF ml ent] obtain dx dy where
    e1: "extends docF dx"
    and m: "monthDateLinks (ctxDims ctx) ?reg (ctxDensity ctx) (?ym, ?mp) dx = Inr dy"
    and e2: "extends dy docL"
    by blast
  have dx: "pages dx = pages docF" using e1 by (simp add: extends_def)
  from date_links_month [OF rmin dpp yr mo gen pos dx m k0 _ day(2)] day(1)
  obtain r y where r: "r \<in> set refs" "type r = Monthly"
    and t: "\<lparr> dtText = dayText (int d), dtX = paddingLeft (padding (ctxDims ctx)), dtY = y,
           dtSize = fontSize (ctxDensity ctx) \<rparr> \<in> set (texts docG (pages docG ! pageIndex r))"
    and l: "linkAnnotation
           \<lparr> rectX = paddingLeft (padding (ctxDims ctx)) - 2, rectY = y - 2, rectWidth = 28,
             rectHeight = fontSize (ctxDensity ctx) + 4 \<rparr> (pages docF ! pageIndex dref)
          \<in> set (annots dy (pages docG ! pageIndex r))"
    by auto
  from extends_mem [OF e2 l] r t show ?thesis by blast
qed

section \<open>The date link pass returns\<close>

lemma targetsInRange_foldl:
  "targetsInRange registry n \<Longrightarrow> \<forall>r \<in> set refs. pageIndex r < n \<Longrightarrow>
     targetsInRange (foldl registerRef registry refs) n"
proof (induction refs arbitrary: registry)
  case Nil
  then show ?case by simp
next
  case (Cons r refs)
  have "targetsInRange (registerRef registry r) n"
    using Cons.prems unfolding targetsInRange_def registerRef_daily
    by (auto split: if_splits)
  then show ?case using Cons.IH Cons.prems(2) by simp
qed

lemma targetsInRange_build:
  "\<forall>r \<in> set refs. pageIndex r < n \<Longrightarrow> targetsInRange (buildPageRegistry refs i) n"
  unfolding buildPageRegistry_def
  by (rule targetsInRange_foldl) (simp_all add: targetsInRange_def emptyRegistry_def)

lemma dateLink_total:
  "targetsInRange registry (length (pages doc)) \<Longrightarrow> normalized doc page \<Longrightarrow>
     \<exists>doc1. dateLink doc page registry left fsize year month d y = Inr doc1"
  by (auto simp: dateLink_def targetsInRange_def createInternalLink_def getPage_def Let_def
      split: option.splits)

lemma linkRowsLoop_total:
  "targetsInRange registry (length (pages doc)) \<Longrightarrow> normalized doc page \<Longrightarrow>
     \<exists>r. linkRowsLoop page registry left fsize year month lineH dotp dimo i d y doc = Inr r"
proof (induction page registry left fsize year month lineH dotp dimo i d y doc
       rule: linkRowsLoop.induct)
  case (1 page registry left fsize year month lineH dotp dimo i d y doc)
  show ?case
  proof (cases "i < dotp \<and> d \<le> dimo")
    case True
    from dateLink_total [OF "1.prems"] obtain doc1 where
      l: "dateLink doc page registry left fsize year month d y = Inr doc1" by blast
    have "pages doc1 = pages doc" "normalized doc1 = normalized doc"
      by (subst dateLink_closed [OF l, of lineH], simp)+
    then have "targetsInRange registry (length (pages doc1))" "normalized doc1 page"
      using "1.prems" by simp_all
    from "1.IH" [OF True l this] show ?thesis
      using True l by (subst linkRowsLoop.simps) simp
  next
    case False
    then show ?thesis by (subst linkRowsLoop.simps) auto
  qed
qed

lemma linkCombinedLoop_total:
  "targetsInRange registry (length (pages doc)) \<Longrightarrow> normalized doc page \<Longrightarrow>
     \<exists>r. linkCombinedLoop page registry left fsize year month lineH dimo day y doc = Inr r"
proof (induction page registry left fsize year month lineH dimo day y doc
       rule: linkCombinedLoop.induct)
  case (1 page registry left fsize year month lineH dimo day y doc)
  show ?case
  proof (cases "day \<le> dimo")
    case True
    from dateLink_total [OF "1.prems"] obtain doc1 where
      l: "dateLink doc page registry left fsize year month day y = Inr doc1" by blast
    have "pages doc1 = pages doc" "normalized doc1 = normalized doc"
      by (subst dateLink_closed [OF l, of lineH], simp)+
    then have "targetsInRange registry (length (pages doc1))" "normalized doc1 page"
      using "1.prems" by simp_all
    from "1.IH" [OF True l this] show ?thesis
      using True l by (subst linkCombinedLoop.simps) simp
  next
    case False
    then show ?thesis by (subst linkCombinedLoop.simps) auto
  qed
qed

lemma linkPagesLoop_total:
  "targetsInRange registry (length (pages doc)) \<Longrightarrow>
   \<forall>r \<in> set rs. pageIndex r < length (pages doc)
      \<and> normalized doc (pages doc ! pageIndex r) \<Longrightarrow>
     \<exists>doc'. linkPagesLoop dims registry density year month dimo dpp mlh avail d rs doc = Inr doc'"
proof (induction rs arbitrary: d doc)
  case Nil
  then show ?case by simp
next
  case (Cons r rest)
  let ?dotp = "min dpp (dimo - d + 1)"
  let ?lineH = "max mlh (avail / real_of_int ?dotp)"
  let ?ct = "HEIGHT dims - paddingTop (padding dims) - 7 - 2 - 7 - 6 - 11 - 8"
  have nr: "normalized doc (pages doc ! pageIndex r)" using Cons.prems(2) by simp
  from linkRowsLoop_total [OF Cons.prems(1) nr] obtain res where
    l0: "linkRowsLoop (pages doc ! pageIndex r) registry (paddingLeft (padding dims))
          (fontSize density) year month ?lineH ?dotp dimo 0 d ?ct doc = Inr res"
    by blast
  obtain doc1 d' where res: "res = (doc1, d')" by (cases res)
  note l = l0 [unfolded res]
  have p: "pages doc1 = pages doc" "normalized doc1 = normalized doc"
    using linkRowsLoop_closed [OF l] by simp_all
  from Cons.IH [of doc1 d'] Cons.prems p obtain doc' where
    "linkPagesLoop dims registry density year month dimo dpp mlh avail d' rest doc1 = Inr doc'"
    by auto
  then show ?case using l Cons.prems(2) by (simp add: getPage_def Let_def)
qed

lemma fetchPages_total:
  "\<forall>r \<in> set rs. pageIndex r < length (pages doc) \<and> P r \<Longrightarrow> fetchPages doc rs = Inr doc"
  by (induction rs) (simp_all add: getPage_def)

lemma monthDateLinks_total:
  assumes "targetsInRange registry (length (pages doc))"
    and "snd entry \<noteq> []"
    and "\<forall>r \<in> set (snd entry). pageIndex r < length (pages doc)
           \<and> normalized doc (pages doc ! pageIndex r)"
  shows "\<exists>doc'. monthDateLinks dims registry density entry doc = Inr doc'"
proof -
  have h: "pageIndex (hd (snd entry)) < length (pages doc)"
    "normalized doc (pages doc ! pageIndex (hd (snd entry)))" using assms(2,3) by simp_all
  have f1: "fetchPages doc (snd entry) = Inr doc" using fetchPages_total [OF assms(3)] .
  have f2: "fetchPages doc [hd (snd entry)] = Inr doc" using h by (simp add: getPage_def)
  note lp = linkPagesLoop_total [OF assms(1,3)]
  note lc = linkCombinedLoop_total [OF assms(1) h(2)]
  let ?parts = "split (fst entry) CHR ''-''"
  let ?year = "parseInt (?parts ! 0)"
  let ?mp1 = "(if 1 < length ?parts then parseInt (?parts ! 1) else None)"
  have fin: "\<exists>doc'. (if 1 < length (snd entry) then fetchPages doc (snd entry)
                     else fetchPages doc [hd (snd entry)]) = Inr doc'"
    by (simp only: f1 f2 if_cancel) blast
  show ?thesis
  proof (cases ?year)
    case None
    have "monthDateLinks dims registry density entry doc
            = (if 1 < length (snd entry) then fetchPages doc (snd entry)
               else fetchPages doc [hd (snd entry)])"
      unfolding monthDateLinks_def by (simp only: Let_def None prod.case option.case)
    then show ?thesis using fin by (simp only:)
  next
    case y: (Some year)
    show ?thesis
    proof (cases ?mp1)
      case None
      have "monthDateLinks dims registry density entry doc
            = (if 1 < length (snd entry) then fetchPages doc (snd entry)
               else fetchPages doc [hd (snd entry)])"
        unfolding monthDateLinks_def by (simp only: Let_def y None prod.case option.case)
      then show ?thesis using fin by (simp only:)
    next
      case (Some mp1)
      have e1: "(\<exists>doc'. linkPagesLoop dims registry density a b c dd e f g (snd entry) doc
                  = Inr doc') = True" for a b c dd e f g
        using lp by simp
      have e2: "(\<exists>doc'. linkCombinedLoop (pages doc ! pageIndex (hd (snd entry))) registry
                   a b c dd e f g k doc = Inr doc') = True" for a b c dd e f g k
        using lc by simp
      have gp: "getPage doc (pageIndex (hd (snd entry)))
                  = Inr (pages doc ! pageIndex (hd (snd entry)))"
        using h(1) by (simp add: getPage_def)
      show ?thesis
        unfolding monthDateLinks_def
        by (simp only: Let_def y Some fst_conv snd_conv option.case prod.case gp sum.case e1 e2
              if_True if_False simp_thms split: if_split)
    qed
  qed
qed

lemma update_set: "e \<in> set (AList.update k v m) \<Longrightarrow> e \<in> set m \<or> e = (k, v)"
  by (induction m) (auto split: if_splits)

lemma groupMonthly_entries:
  assumes "\<forall>e \<in> set m. snd e \<noteq> [] \<and> set (snd e) \<subseteq> S" and "set refs \<subseteq> S"
  shows "\<forall>e \<in> set (groupMonthly refs m). snd e \<noteq> [] \<and> set (snd e) \<subseteq> S"
  using assms
proof (induction refs arbitrary: m)
  case Nil
  then show ?case by simp
next
  case (Cons r refs)
  from Cons.prems(2) have rS: "r \<in> S" and rest: "set refs \<subseteq> S" by simp_all
  show ?case
  proof (cases "truthy (yearMonth r)")
    case False
    then have "groupMonthly (r # refs) m = groupMonthly refs m" by simp
    then show ?thesis using Cons.IH [OF Cons.prems(1) rest] by (simp only:)
  next
    case True
    let ?k = "the (yearMonth r)"
    define pgs where "pgs = (case map_of m ?k of Some ps \<Rightarrow> ps | None \<Rightarrow> [])"
    have sub: "set pgs \<subseteq> S"
    proof (cases "map_of m ?k")
      case None
      then show ?thesis by (simp add: pgs_def)
    next
      case (Some ps)
      then have "(?k, ps) \<in> set m" by (rule map_of_SomeD)
      with Cons.prems(1) have "snd (?k, ps) \<noteq> [] \<and> set (snd (?k, ps)) \<subseteq> S" by (rule bspec)
      then have "set ps \<subseteq> S" by simp
      then show ?thesis using Some by (simp add: pgs_def)
    qed
    have u: "\<forall>e \<in> set (AList.update ?k (pgs @ [r]) m). snd e \<noteq> [] \<and> set (snd e) \<subseteq> S"
    proof
      fix e
      assume "e \<in> set (AList.update ?k (pgs @ [r]) m)"
      then have "e \<in> set m \<or> e = (?k, pgs @ [r])" by (rule update_set)
      then show "snd e \<noteq> [] \<and> set (snd e) \<subseteq> S"
      proof
        assume "e \<in> set m"
        with Cons.prems(1) show ?thesis by (rule bspec)
      next
        assume "e = (?k, pgs @ [r])"
        then show ?thesis using sub rS by simp
      qed
    qed
    have "groupMonthly (r # refs) m = groupMonthly refs (AList.update ?k (pgs @ [r]) m)"
      using True by (simp add: Let_def pgs_def)
    then show ?thesis using Cons.IH [OF u rest] by (simp only:)
  qed
qed

lemma monthsLoop_total:
  assumes "targetsInRange registry (length (pages doc))"
    and "\<forall>e \<in> set groups. snd e \<noteq> [] \<and> (\<forall>r \<in> set (snd e). pageIndex r < length (pages doc)
            \<and> normalized doc (pages doc ! pageIndex r))"
  shows "\<exists>doc'. monthsLoop dims registry density groups doc = Inr doc'"
  using assms
proof (induction groups arbitrary: doc)
  case Nil
  then show ?case by simp
next
  case (Cons g rest)
  from monthDateLinks_total [of registry doc g dims density] Cons.prems obtain doc1 where
    m: "monthDateLinks dims registry density g doc = Inr doc1" by auto
  have p: "pages doc1 = pages doc" "normalized doc1 = normalized doc"
    using monthDateLinks_extends [OF m] by (simp_all add: extends_def)
  from Cons.IH [of doc1] Cons.prems p obtain doc' where
    "monthsLoop dims registry density rest doc1 = Inr doc'" by auto
  then show ?case using m by simp
qed

lemma addMonthlyDateLinks_total:
  assumes "\<forall>r \<in> set allRefs. pageIndex r < length (pages doc)"
    and "\<forall>r \<in> set allRefs. type r = Monthly \<longrightarrow> normalized doc (pages doc ! pageIndex r)"
  shows "\<exists>doc'. addMonthlyDateLinks doc dims allRefs (buildPageRegistry allRefs i) density
           = Inr doc'"
proof -
  let ?S = "{r. pageIndex r < length (pages doc) \<and> normalized doc (pages doc ! pageIndex r)}"
  let ?mrefs = "filter (\<lambda>r. type r = Monthly) allRefs"
  have t: "targetsInRange (buildPageRegistry allRefs i) (length (pages doc))"
    using targetsInRange_build [OF assms(1)] .
  have "set ?mrefs \<subseteq> ?S" using assms by auto
  then have "\<forall>e \<in> set (groupMonthly ?mrefs []). snd e \<noteq> [] \<and> set (snd e) \<subseteq> ?S"
    by (intro groupMonthly_entries) simp_all
  then have g: "\<forall>e \<in> set (groupMonthly ?mrefs []).
                  snd e \<noteq> [] \<and> (\<forall>r \<in> set (snd e). pageIndex r < length (pages doc)
                     \<and> normalized doc (pages doc ! pageIndex r))"
    by blast
  from monthsLoop_total [OF t g] show ?thesis
    by (simp add: addMonthlyDateLinks_def Let_def)
qed

text \<open>
  C4 (calendar dates link to their daily pages).  Let the generator have made the
  pages of a month, and let the final document hold each of them \<open>M\<close> places further on
  (\<open>M\<close> index pages having been inserted before them), the references moved by \<open>M\<close>
  as \<open>generatePlannerPDF\<close> moves them.  Let the final references have a daily page for
  day \<open>d\<close> of that month (and no other page index for that date).  When every
  reference points into the document and the calendar pages have been drawn on, the
  date link pass returns; and on a calendar page of the month, where the generator
  drew the number of day \<open>d\<close> at \<open>(left, y)\<close>, the pass has put a link over the rectangle
  \<open>(left - 2, y - 2, 28, fontSize + 4)\<close> whose destination is the page at the final
  page index of the daily reference.  This holds in the split and in the combined
  layout: the pass takes the same decision and the same row heights as the
  generator.  (The year is 100 or more: below that, \<open>new Date(year, month, day)\<close> means
  a year of the twentieth century.)
\<close>

theorem calendar_date_links:
  assumes gen: "generateMonthlyLog ctx md pdfDoc = Some (docG, refs)"
    and rmin: "0 < genMinLineHeight ctx"
    and rH: "genMinLineHeight ctx \<le> genAvailableHeight ctx"
    and yr: "100 \<le> getFullYear md" and mo: "getMonth md < 12"
    and pos: "\<forall>r \<in> set refs. pageIndex r + M < length (pages docF)
                \<and> pages docF ! (pageIndex r + M) = pages docG ! pageIndex r"
    and allr: "filter (\<lambda>r. type r = Monthly \<and> yearMonth r = Some (formatYearMonth md)) allRefs
               = filter (\<lambda>r. type r = Monthly) (shiftPageRefs M refs)"
    and dref: "dref \<in> set allRefs" "type dref = Daily"
      "date dref = Some \<lparr> getFullYear = getFullYear md, getMonth = getMonth md, getDate = d \<rparr>"
    and uniq: "\<forall>r \<in> set allRefs. type r = Daily \<and> date r \<noteq> None
                 \<and> formatDateKey (the (date r)) = formatDateKey (the (date dref))
                 \<longrightarrow> pageIndex r = pageIndex dref"
    and day: "1 \<le> d" "int d \<le> getDaysInMonth md"
    and inr: "\<forall>r \<in> set allRefs. pageIndex r < length (pages docF)"
    and drawn: "\<forall>r \<in> set allRefs. type r = Monthly
                  \<longrightarrow> normalized docF (pages docF ! pageIndex r)"
  shows "\<exists>docL. addMonthlyDateLinks docF (ctxDims ctx) allRefs
                  (buildPageRegistry allRefs tocPageIndex) (ctxDensity ctx) = Inr docL
      \<and> (\<exists>r \<in> set refs. \<exists>y. type r = Monthly
          \<and> \<lparr> dtText = dayText (int d), dtX = paddingLeft (padding (ctxDims ctx)), dtY = y,
               dtSize = fontSize (ctxDensity ctx) \<rparr> \<in> set (texts docG (pages docG ! pageIndex r))
          \<and> linkAnnotation
               \<lparr> rectX = paddingLeft (padding (ctxDims ctx)) - 2, rectY = y - 2, rectWidth = 28,
                 rectHeight = fontSize (ctxDensity ctx) + 4 \<rparr> (pages docF ! pageIndex dref)
              \<in> set (annots docL (pages docG ! pageIndex r)))"
proof -
  from addMonthlyDateLinks_total [OF inr drawn] obtain docL where
    links: "addMonthlyDateLinks docF (ctxDims ctx) allRefs
              (buildPageRegistry allRefs tocPageIndex) (ctxDensity ctx) = Inr docL"
    by blast
  from date_links_returned [OF gen rmin rH yr mo pos allr dref uniq day links] links
  show ?thesis by blast
qed

lemma exMonth_result:
  "generateMonthlyLog (exCtx Compact) january2025 coverDoc = Some (exMonthDoc, exMonthRefs)"
  "exMonthDoc = addTexts 1 (genNavTexts (exCtx Compact) Monthly @ rowTexts 24 8 14 516 1 31)
                  (snd (addPage coverDoc))"
  "exMonthRefs = [\<lparr> label = ''January'', pageIndex = 1, type = Monthly,
              date = Some january2025, monthIndex = Some 0,
              weekIndex = None, yearMonth = Some (formatYearMonth january2025) \<rparr>,
            \<lparr> label = ''January (Tasks)'', pageIndex = 1,
              type = MonthlyTasks, date = Some january2025,
              monthIndex = Some 0, weekIndex = None,
              yearMonth = Some (formatYearMonth january2025) \<rparr>]"
proof -
  have h1: "real_of_int (getDaysInMonth january2025) * lineHeight (ctxDensity (exCtx Compact))
      \<le> genAvailableHeight (exCtx Compact)"
    by (simp add: exCtx_values) (simp add: exCtx_def DENSITY_CONFIGS_def)
  have h2: "0 < genMinLineHeight (exCtx Compact)" by (simp add: exCtx_values)
  have h3: "genMinLineHeight (exCtx Compact) \<le> lineHeight (ctxDensity (exCtx Compact))"
    by (simp add: exCtx_values) (simp add: exCtx_def DENSITY_CONFIGS_def)
  note g = generateMonthlyLog_combined_result [OF h1 h2 h3, of coverDoc]
  have c: "objectCount coverDoc = 1" "length (pages coverDoc) = 1"
    by (simp_all add: coverDoc_def addPage_def createDocument_def)
  have v: "paddingLeft (padding (ctxDims (exCtx Compact))) = 24"
    "fontSize (ctxDensity (exCtx Compact)) = 8"
    "lineHeight (ctxDensity (exCtx Compact)) = 14"
    "genContentTop (exCtx Compact) = 516"
    by (simp_all add: exCtx_def exDims_def DENSITY_CONFIGS_def genContentTop_def genNavY_def
        navFontSize_def)
  have mn: "monthName january2025 = ''January''" "getMonth january2025 = 0"
    by (simp_all add: monthName_def january2025_def)
  show "generateMonthlyLog (exCtx Compact) january2025 coverDoc = Some (exMonthDoc, exMonthRefs)"
    by (simp add: exMonthDoc_def exMonthRefs_def g)
  show "exMonthDoc = addTexts 1 (genNavTexts (exCtx Compact) Monthly @ rowTexts 24 8 14 516 1 31)
                  (snd (addPage coverDoc))"
    by (simp add: exMonthDoc_def g c v exCtx_values)
  show "exMonthRefs = [\<lparr> label = ''January'', pageIndex = 1, type = Monthly,
              date = Some january2025, monthIndex = Some 0,
              weekIndex = None, yearMonth = Some (formatYearMonth january2025) \<rparr>,
            \<lparr> label = ''January (Tasks)'', pageIndex = 1,
              type = MonthlyTasks, date = Some january2025,
              monthIndex = Some 0, weekIndex = None,
              yearMonth = Some (formatYearMonth january2025) \<rparr>]"
    by (simp add: exMonthRefs_def g c mn)
qed

lemma exPlanner_facts:
  "pages exMonthDoc = [0, 1]"
  "pages exPlanner = [0, 3, 1, 2]"
  "normalized exPlanner (Suc 0)"
proof -
  have n: "genNavTexts (exCtx Compact) Monthly \<noteq> []"
    by (simp add: genNavTexts_def getNavLabels_def)
  show "pages exMonthDoc = [0, 1]"
    by (simp add: exMonth_result(2) coverDoc_def addPage_def createDocument_def)
  show "pages exPlanner = [0, 3, 1, 2]"
    by (simp add: exPlanner_def insertPage_def dailyPage_def exMonth_result(2) coverDoc_def
        addPage_def createDocument_def drawTopNavigation_def drawNavLoop_closed drawText_def
        Let_def)
  show "normalized exPlanner (Suc 0)"
    using n
    by (simp add: exPlanner_def insertPage_def dailyPage_def exMonth_result(2) coverDoc_def
        addPage_def createDocument_def drawTopNavigation_def drawNavLoop_closed drawText_def
        Let_def)
qed

theorem calendar_date_links_witness:
  "generateMonthlyLog (exCtx Compact) january2025 coverDoc = Some (exMonthDoc, exMonthRefs)
   \<and> dailyRef 15 3 \<in> set exPlannerRefs
   \<and> pages exPlanner = [0, 3, 1, 2] \<and> normalized exPlanner 1
   \<and> (\<exists>docL. addMonthlyDateLinks exPlanner exDims exPlannerRefs
                  (buildPageRegistry exPlannerRefs 1) (DENSITY_CONFIGS Compact) = Inr docL
        \<and> (\<exists>y. \<lparr> dtText = dayText 15, dtX = 24, dtY = y, dtSize = 8 \<rparr>
                   \<in> set (texts exMonthDoc 1)
              \<and> linkAnnotation
                   \<lparr> rectX = 22, rectY = y - 2, rectWidth = 28, rectHeight = 12 \<rparr> 2
                  \<in> set (annots docL 1)))"
proof -
  let ?ctx = "exCtx Compact"
  note gen = exMonth_result(1)
  have rmin: "0 < genMinLineHeight ?ctx" by (simp add: exCtx_values)
  have rH: "genMinLineHeight ?ctx \<le> genAvailableHeight ?ctx" by (simp add: exCtx_values)
  have yr: "100 \<le> getFullYear january2025" and mo: "getMonth january2025 < 12"
    by (simp_all add: january2025_def)
  have pos: "\<forall>r \<in> set exMonthRefs. pageIndex r + 1 < length (pages exPlanner)
                \<and> pages exPlanner ! (pageIndex r + 1) = pages exMonthDoc ! pageIndex r"
    by (simp add: exMonth_result(3) exPlanner_facts)
  have allr: "filter (\<lambda>r. type r = Monthly
                       \<and> yearMonth r = Some (formatYearMonth january2025)) exPlannerRefs
               = filter (\<lambda>r. type r = Monthly) (shiftPageRefs 1 exMonthRefs)"
    by (simp add: exPlannerRefs_def exMonth_result(3) indexRef_def dailyRef_def shiftPageRefs_def)
  have sh: "shiftPageRefs 1 [dailyRef 15 2] = [dailyRef 15 3]"
    by (simp add: shiftPageRefs_def dailyRef_def)
  have dref: "dailyRef 15 3 \<in> set exPlannerRefs" "type (dailyRef 15 3) = Daily"
    "date (dailyRef 15 3) = Some \<lparr> getFullYear = getFullYear january2025,
        getMonth = getMonth january2025, getDate = 15 \<rparr>"
    by (simp_all add: exPlannerRefs_def sh) (simp_all add: dailyRef_def january2025_def)
  have uniq: "\<forall>r \<in> set exPlannerRefs. type r = Daily \<and> date r \<noteq> None
                 \<and> formatDateKey (the (date r)) = formatDateKey (the (date (dailyRef 15 3)))
                 \<longrightarrow> pageIndex r = pageIndex (dailyRef 15 3)"
    by (simp add: exPlannerRefs_def exMonth_result(3) indexRef_def shiftPageRefs_def)
       (simp add: dailyRef_def)
  have day: "1 \<le> (15::nat)" "int 15 \<le> getDaysInMonth january2025"
    by (simp_all add: exCtx_values)
  have inr: "\<forall>r \<in> set exPlannerRefs. pageIndex r < length (pages exPlanner)"
    by (simp add: exPlannerRefs_def sh exMonth_result(3) indexRef_def shiftPageRefs_def
        exPlanner_facts) (simp add: dailyRef_def)
  have drawn: "\<forall>r \<in> set exPlannerRefs. type r = Monthly
                  \<longrightarrow> normalized exPlanner (pages exPlanner ! pageIndex r)"
    by (simp add: exPlannerRefs_def sh exMonth_result(3) indexRef_def shiftPageRefs_def
        exPlanner_facts) (simp add: dailyRef_def)
  have v: "ctxDims ?ctx = exDims" "ctxDensity ?ctx = DENSITY_CONFIGS Compact"
    "paddingLeft (padding exDims) = 24" "fontSize (DENSITY_CONFIGS Compact) = 8"
    by (simp_all add: exCtx_def exDims_def DENSITY_CONFIGS_def)
  have pd: "pages exPlanner ! pageIndex (dailyRef 15 3) = 2"
    by (simp add: dailyRef_def exPlanner_facts)
  from calendar_date_links [OF gen rmin rH yr mo pos allr dref uniq day inr drawn, of 1]
  have "\<exists>docL. addMonthlyDateLinks exPlanner exDims exPlannerRefs
                  (buildPageRegistry exPlannerRefs 1) (DENSITY_CONFIGS Compact) = Inr docL
        \<and> (\<exists>y. \<lparr> dtText = dayText 15, dtX = 24, dtY = y, dtSize = 8 \<rparr>
                   \<in> set (texts exMonthDoc 1)
              \<and> linkAnnotation
                   \<lparr> rectX = 22, rectY = y - 2, rectWidth = 28, rectHeight = 12 \<rparr> 2
                  \<in> set (annots docL 1))"
    unfolding v pd by (simp add: exMonth_result(3) exPlanner_facts)
  with gen dref(1) exPlanner_facts(2,3) show ?thesis by simp
qed

end
